(* ===== verification/Prelude.thy ===== *)
theory Prelude
  imports Main
begin

text \<open>
  Shared vocabulary of the development: the Python exceptions that the collector in
  \<open>src/app.py\<close> can raise or catch, the result type \<open>py_exc + 'a\<close> that stands for
  ``returns a value or raises'', sequencing of such results (\<open>rbind\<close>, Python's
  implicit propagation of an exception), list indexing that raises \<open>IndexError\<close>
  instead of returning an unspecified element, and the generic lemmas on these that the
  component theories use through the \<open>py_simps\<close> collection.
\<close>

named_theorems py_simps "rewrite rules for the Python builtins of the model"

section \<open>Exceptions and results\<close>

text \<open>
  \<open>AppError\<close> is the module's own \<open>class Error(Exception)\<close>; \<open>ConnectionError\<close> is
  \<open>requests.exceptions.ConnectionError\<close>; \<open>RequestError\<close> stands for any other
  exception \<open>requests.get\<close> can raise (a read timeout, an invalid URL), which the
  fetch code does not catch. \<open>YAMLError\<close> is what \<open>yaml.load\<close> raises on a malformed
  configuration file.
\<close>

datatype py_exc =
    IndexError
  | ValueError
  | ZeroDivisionError
  | AppError string
  | ConnectionError
  | RequestError
  | YAMLError

type_synonym 'a result = "py_exc + 'a"

definition rbind :: "'a result \<Rightarrow> ('a \<Rightarrow> 'b result) \<Rightarrow> 'b result" where
  "rbind r f = (case r of Inl e \<Rightarrow> Inl e | Inr x \<Rightarrow> f x)"

lemma rbind_Inl [simp, py_simps]: "rbind (Inl e) f = Inl e"
  by (simp add: rbind_def)

lemma rbind_Inr [simp, py_simps]: "rbind (Inr x) f = f x"
  by (simp add: rbind_def)

lemma rbind_eq_Inr_iff: "rbind r f = Inr y \<longleftrightarrow> (\<exists>x. r = Inr x \<and> f x = Inr y)"
  by (cases r) auto

lemma rbind_eq_Inl_iff:
  "rbind r f = Inl e \<longleftrightarrow> r = Inl e \<or> (\<exists>x. r = Inr x \<and> f x = Inl e)"
  by (cases r) auto

section \<open>Indexing a list\<close>

text \<open>Python's \<open>v[i]\<close> for a non-negative index \<open>i\<close>.\<close>

definition py_index :: "'a list \<Rightarrow> nat \<Rightarrow> 'a result" where
  "py_index xs i = (if i < length xs then Inr (xs ! i) else Inl IndexError)"

lemma py_index_ok [simp, py_simps]: "i < length xs \<Longrightarrow> py_index xs i = Inr (xs ! i)"
  by (simp add: py_index_def)

lemma py_index_out [simp, py_simps]: "length xs \<le> i \<Longrightarrow> py_index xs i = Inl IndexError"
  by (simp add: py_index_def)

lemma py_index_Cons_0 [simp, py_simps]: "py_index (x # xs) 0 = Inr x"
  by (simp add: py_index_def)

lemma py_index_Cons_Suc [simp, py_simps]: "py_index (x # xs) (Suc i) = py_index xs i"
  by (simp add: py_index_def)

lemma py_index_Nil [simp, py_simps]: "py_index [] i = Inl IndexError"
  by (simp add: py_index_def)

lemma py_index_eq_Inr_iff: "py_index xs i = Inr x \<longleftrightarrow> i < length xs \<and> x = xs ! i"
  by (auto simp: py_index_def)

lemma py_index_eq_Inl_iff: "py_index xs i = Inl e \<longleftrightarrow> length xs \<le> i \<and> e = IndexError"
  by (auto simp: py_index_def)

text \<open>Unfolding \<open>replicate\<close> at a numeral, to evaluate concrete strings.\<close>

lemma replicate_numeral: "replicate (numeral k) x = x # replicate (pred_numeral k) x"
  by (simp add: numeral_eq_Suc)

section \<open>Results of a loop over a list\<close>

text \<open>
  A Python \<open>for\<close> loop that appends one element per item and lets the first exception
  escape: the whole loop raises that exception, otherwise it returns the list of
  results in order.
\<close>

fun map_result :: "('a \<Rightarrow> 'b result) \<Rightarrow> 'a list \<Rightarrow> 'b list result" where
  "map_result f [] = Inr []"
| "map_result f (x # xs) = rbind (f x) (\<lambda>y. rbind (map_result f xs) (\<lambda>ys. Inr (y # ys)))"

lemma map_result_Inr_length:
  "map_result f xs = Inr ys \<Longrightarrow> length ys = length xs"
  by (induction xs arbitrary: ys) (auto simp: rbind_eq_Inr_iff)

lemma map_result_Inr_nth:
  "map_result f xs = Inr ys \<Longrightarrow> i < length xs \<Longrightarrow> f (xs ! i) = Inr (ys ! i)"
proof (induction xs arbitrary: ys i)
  case Nil
  then show ?case by simp
next
  case (Cons x xs)
  then obtain y ys' where "f x = Inr y" "map_result f xs = Inr ys'" "ys = y # ys'"
    by (auto simp: rbind_eq_Inr_iff)
  with Cons show ?case by (cases i) auto
qed

lemma map_result_Inr_set:
  "map_result f xs = Inr ys \<Longrightarrow> (\<And>x y. f x = Inr y \<Longrightarrow> P y) \<Longrightarrow> \<forall>y \<in> set ys. P y"
  by (induction xs arbitrary: ys) (auto simp: rbind_eq_Inr_iff)

lemma map_result_all_Inr:
  "(\<And>x. x \<in> set xs \<Longrightarrow> f x = Inr (g x)) \<Longrightarrow> map_result f xs = Inr (map g xs)"
  by (induction xs) auto

lemma map_result_cong:
  "(\<And>x. x \<in> set xs \<Longrightarrow> f x = g x) \<Longrightarrow> map_result f xs = map_result g xs"
  by (induction xs) auto

lemma map_result_map: "map_result f (map h xs) = map_result (\<lambda>x. f (h x)) xs"
  by (induction xs) auto

lemma map_result_append:
  "map_result f (xs @ ys) =
     rbind (map_result f xs) (\<lambda>as. rbind (map_result f ys) (\<lambda>bs. Inr (as @ bs)))"
  by (induction xs) (auto simp: rbind_def split: sum.splits)

lemma map_result_Inl_first:
  "map_result f xs = Inl e \<longleftrightarrow>
     (\<exists>i < length xs. f (xs ! i) = Inl e \<and> (\<forall>j < i. \<exists>y. f (xs ! j) = Inr y))"
proof (induction xs)
  case Nil
  then show ?case by simp
next
  case (Cons x xs)
  show ?case
  proof (cases "f x")
    case (Inl e')
    then show ?thesis by (auto simp: nth_Cons')
  next
    case (Inr y)
    have "map_result f (x # xs) = Inl e \<longleftrightarrow> map_result f xs = Inl e"
      using Inr by (simp add: rbind_def split: sum.splits)
    also have "\<dots> \<longleftrightarrow> (\<exists>i < length xs. f (xs ! i) = Inl e \<and> (\<forall>j < i. \<exists>y. f (xs ! j) = Inr y))"
      by (rule Cons.IH)
    also have "\<dots> \<longleftrightarrow> (\<exists>i < length (x # xs). f ((x # xs) ! i) = Inl e \<and>
                          (\<forall>j < i. \<exists>y. f ((x # xs) ! j) = Inr y))"
    proof
      assume "\<exists>i < length xs. f (xs ! i) = Inl e \<and> (\<forall>j < i. \<exists>y. f (xs ! j) = Inr y)"
      then obtain i where i: "i < length xs" "f (xs ! i) = Inl e" "\<forall>j < i. \<exists>y. f (xs ! j) = Inr y"
        by blast
      have "\<forall>j < Suc i. \<exists>y. f ((x # xs) ! j) = Inr y"
        using i(3) Inr by (auto simp: nth_Cons')
      with i show "\<exists>i < length (x # xs). f ((x # xs) ! i) = Inl e \<and>
                          (\<forall>j < i. \<exists>y. f ((x # xs) ! j) = Inr y)"
        by (intro exI [of _ "Suc i"]) auto
    next
      assume "\<exists>i < length (x # xs). f ((x # xs) ! i) = Inl e \<and>
                          (\<forall>j < i. \<exists>y. f ((x # xs) ! j) = Inr y)"
      then obtain i where i: "i < length (x # xs)" "f ((x # xs) ! i) = Inl e"
          "\<forall>j < i. \<exists>y. f ((x # xs) ! j) = Inr y"
        by blast
      with Inr obtain i' where "i = Suc i'" by (cases i) auto
      with i show "\<exists>i < length xs. f (xs ! i) = Inl e \<and> (\<forall>j < i. \<exists>y. f (xs ! j) = Inr y)"
        by (intro exI [of _ i']) auto
    qed
    finally show ?thesis .
  qed
qed

end
