(* ===== verification/Py_Str.thy ===== *)
theory Py_Str
  imports Prelude
begin

text \<open>
  The Python \<open>str\<close> methods the collector calls, as functions on \<open>string\<close>: a Python
  string is a sequence of code points, and the model reads a HOL \<open>char\<close> as a code point
  below 256 (Latin-1), so that the code points U+001C to U+001E and U+0085, which
  \<open>splitlines\<close> treats as line breaks, are representable; U+2028 and U+2029 are not
  (see the root theory).
  \<^item> \<open>str.split(';')\<close> is \<open>split_on\<close>, with its inverse \<open>';'.join\<close> (\<open>py_join\<close>);
  \<^item> \<open>str.splitlines()\<close> is \<open>splitlines\<close>;
  \<^item> \<open>str.strip(chars)\<close> is \<open>strip_chars\<close>.
  The lemmas here (split of joined fields, lines of a terminated text, strip of a
  quoted text) are what the parser's theorems in \<open>Record_Parser\<close> rest on.
\<close>

section \<open>\<open>str.split(sep)\<close> with a one-character separator\<close>

text \<open>
  \<open>s.split(c)\<close> scans \<open>s\<close> once and cuts it at every occurrence of \<open>c\<close>, keeping the
  empty pieces, so the result always has one more element than \<open>s\<close> has separators.
  The scan keeps the piece being read in \<open>cur\<close>, reversed.
\<close>

fun split_acc :: "char \<Rightarrow> string \<Rightarrow> string \<Rightarrow> string list" where
  "split_acc c cur [] = [rev cur]"
| "split_acc c cur (x # xs) =
     (if x = c then rev cur # split_acc c [] xs else split_acc c (x # cur) xs)"

definition split_on :: "char \<Rightarrow> string \<Rightarrow> string list" where
  "split_on c s = split_acc c [] s"

fun py_join :: "char \<Rightarrow> string list \<Rightarrow> string" where
  "py_join c [] = []"
| "py_join c [w] = w"
| "py_join c (w # ws) = w @ c # py_join c ws"

lemma py_join_Cons: "py_join c (w # ws) = (if ws = [] then w else w @ c # py_join c ws)"
  by (cases ws) simp_all

lemma split_acc_not_Nil [simp]: "split_acc c cur s \<noteq> []"
  by (induction c cur s rule: split_acc.induct) auto

lemma split_acc_append_free:
  "c \<notin> set w \<Longrightarrow> split_acc c cur (w @ rest) = split_acc c (rev w @ cur) rest"
  by (induction w arbitrary: cur) auto

lemma split_acc_append_sep:
  "c \<notin> set w \<Longrightarrow> split_acc c cur (w @ c # s) = (rev cur @ w) # split_acc c [] s"
  by (simp add: split_acc_append_free)

lemma split_acc_free: "c \<notin> set w \<Longrightarrow> split_acc c cur w = [rev cur @ w]"
  using split_acc_append_free [of c w cur "[]"] by simp

lemma length_split_acc: "length (split_acc c cur s) = Suc (count_list s c)"
  by (induction c cur s rule: split_acc.induct) auto

lemma length_split_on: "length (split_on c s) = Suc (count_list s c)"
  by (simp add: split_on_def length_split_acc)

lemma split_acc_pieces_free:
  "w \<in> set (split_acc c cur s) \<Longrightarrow> c \<notin> set cur \<Longrightarrow> c \<notin> set w"
  by (induction c cur s rule: split_acc.induct) (auto split: if_splits)

lemma split_on_pieces_free: "w \<in> set (split_on c s) \<Longrightarrow> c \<notin> set w"
  by (auto simp: split_on_def dest: split_acc_pieces_free)

lemma py_join_split_acc: "py_join c (split_acc c cur s) = rev cur @ s"
  by (induction c cur s rule: split_acc.induct) (auto simp: py_join_Cons)

lemma split_acc_py_join:
  "ws \<noteq> [] \<Longrightarrow> (\<forall>w \<in> set ws. c \<notin> set w) \<Longrightarrow>
   split_acc c cur (py_join c ws) = (rev cur @ hd ws) # tl ws"
proof (induction ws arbitrary: cur rule: induct_list012)
  case 1
  then show ?case by simp
next
  case (2 w)
  then show ?case by (simp add: split_acc_free)
next
  case (3 w v ws)
  then show ?case by (simp add: split_acc_append_sep)
qed

lemma split_on_py_join:
  "ws \<noteq> [] \<Longrightarrow> (\<forall>w \<in> set ws. c \<notin> set w) \<Longrightarrow> split_on c (py_join c ws) = ws"
  by (simp add: split_on_def split_acc_py_join)

lemma py_join_append:
  "xs \<noteq> [] \<Longrightarrow> ys \<noteq> [] \<Longrightarrow> py_join c (xs @ ys) = py_join c xs @ c # py_join c ys"
  by (induction xs rule: induct_list012) (simp_all add: py_join_Cons)

text \<open>A piece that holds separators is, in the joined text, that many more pieces.\<close>

lemma py_join_nested:
  assumes "f \<noteq> []" and "ds \<noteq> []"
  shows "py_join c (f @ py_join c ds # g) = py_join c (f @ ds @ g)"
proof (cases "g = []")
  case True
  with assms show ?thesis by (simp add: py_join_append)
next
  case False
  with assms show ?thesis by (simp add: py_join_append py_join_Cons)
qed

section \<open>\<open>str.splitlines()\<close>\<close>

text \<open>
  The line boundaries of \<open>str.splitlines\<close> below U+0100: \<open>\n\<close>, \<open>\v\<close>, \<open>\f\<close>,
  \<open>\r\<close>, the separators U+001C, U+001D, U+001E and NEL (U+0085); \<open>\r\n\<close> counts as
  one boundary. A final boundary does not open an empty last line, an empty string has
  no lines, and the boundaries themselves are dropped. The scan keeps the line being
  read in \<open>cur\<close>, reversed.
\<close>

definition is_line_break :: "char \<Rightarrow> bool" where
  "is_line_break c \<longleftrightarrow> of_char c \<in> ({10, 11, 12, 13, 28, 29, 30, 133} :: nat set)"

abbreviation CR :: char where "CR \<equiv> CHR 0x0D"
abbreviation LF :: char where "LF \<equiv> CHR 0x0A"

lemma is_line_break_CR [simp]: "is_line_break CR"
  and is_line_break_LF [simp]: "is_line_break LF"
  and not_line_break_semicolon [simp]: "\<not> is_line_break (CHR '';'')"
  by (simp_all add: is_line_break_def)

fun splitlines_acc :: "string \<Rightarrow> string \<Rightarrow> string list" where
  "splitlines_acc cur [] = (if cur = [] then [] else [rev cur])"
| "splitlines_acc cur (c # s) =
     (if c = CR \<and> s \<noteq> [] \<and> hd s = LF then rev cur # splitlines_acc [] (tl s)
      else if is_line_break c then rev cur # splitlines_acc [] s
      else splitlines_acc (c # cur) s)"

definition splitlines :: "string \<Rightarrow> string list" where
  "splitlines s = splitlines_acc [] s"

text \<open>A line terminator: one boundary character, or \<open>\r\n\<close>.\<close>

definition line_terminator :: "string \<Rightarrow> bool" where
  "line_terminator t \<longleftrightarrow> t = [CR, LF] \<or> (\<exists>b. t = [b] \<and> is_line_break b)"

definition no_breaks :: "string \<Rightarrow> bool" where
  "no_breaks l \<longleftrightarrow> (\<forall>c \<in> set l. \<not> is_line_break c)"

lemma splitlines_acc_append_line:
  "no_breaks l \<Longrightarrow> splitlines_acc cur (l @ rest) = splitlines_acc (rev l @ cur) rest"
proof (induction l arbitrary: cur)
  case Nil
  then show ?case by simp
next
  case (Cons c l)
  then have "\<not> is_line_break c" and "no_breaks l"
    by (auto simp: no_breaks_def)
  moreover from this have "c \<noteq> CR" by auto
  ultimately show ?case using Cons.IH by simp
qed

lemma splitlines_acc_terminated_line:
  assumes "no_breaks l" and "line_terminator t"
    and "\<not> (t = [CR] \<and> rest \<noteq> [] \<and> hd rest = LF)"
  shows "splitlines_acc cur (l @ t @ rest) = (rev cur @ l) # splitlines_acc [] rest"
proof -
  have "splitlines_acc cur (l @ t @ rest) = splitlines_acc (rev l @ cur) (t @ rest)"
    using assms(1) by (rule splitlines_acc_append_line)
  also have "\<dots> = (rev cur @ l) # splitlines_acc [] rest"
  proof (cases "t = [CR, LF]")
    case True
    then show ?thesis by simp
  next
    case False
    with assms(2) obtain b where b: "t = [b]" "is_line_break b"
      by (auto simp: line_terminator_def)
    with assms(3) have "\<not> (b = CR \<and> rest \<noteq> [] \<and> hd rest = LF)" by auto
    with b show ?thesis by auto
  qed
  finally show ?thesis .
qed

lemma terminated_lines_hd:
  assumes "\<forall>l \<in> set ls. no_breaks l" and "ls \<noteq> []"
  shows "hd (concat (map (\<lambda>l. l @ t) ls)) \<noteq> LF \<or> t \<noteq> [CR]"
proof -
  obtain l ls' where ls: "ls = l # ls'"
    using assms(2) by (cases ls) auto
  show ?thesis
  proof (cases l)
    case Nil
    with ls show ?thesis by auto
  next
    case (Cons c l')
    with assms(1) ls have "\<not> is_line_break c" by (auto simp: no_breaks_def)
    then have "c \<noteq> LF" by auto
    with ls Cons show ?thesis by simp
  qed
qed

theorem splitlines_roundtrip:
  assumes "\<forall>l \<in> set ls. no_breaks l" and "line_terminator t"
  shows "splitlines (concat (map (\<lambda>l. l @ t) ls)) = ls"
proof -
  have "splitlines_acc [] (concat (map (\<lambda>l. l @ t) ls)) = ls"
    using assms(1)
  proof (induction ls)
    case Nil
    then show ?case by simp
  next
    case (Cons l ls)
    let ?rest = "concat (map (\<lambda>l. l @ t) ls)"
    have "\<not> (t = [CR] \<and> ?rest \<noteq> [] \<and> hd ?rest = LF)"
    proof (cases "ls = []")
      case True
      then show ?thesis by simp
    next
      case False
      with Cons.prems show ?thesis using terminated_lines_hd [of ls t] by auto
    qed
    then have "splitlines_acc [] (l @ t @ ?rest) = l # splitlines_acc [] ?rest"
      using splitlines_acc_terminated_line [OF _ assms(2)] Cons.prems by simp
    with Cons show ?case by simp
  qed
  then show ?thesis by (simp add: splitlines_def)
qed

lemma no_breaks_py_join:
  "(\<forall>v \<in> set vs. no_breaks v) \<Longrightarrow> \<not> is_line_break c \<Longrightarrow> no_breaks (py_join c vs)"
  by (induction c vs rule: py_join.induct) (auto simp: no_breaks_def)

section \<open>\<open>str.strip(chars)\<close>\<close>

text \<open>
  \<open>s.strip(cs)\<close> removes every leading and every trailing character that is in
  \<open>cs\<close>: the leading run is dropped, then the trailing run of what is left.
\<close>

definition strip_chars :: "char list \<Rightarrow> string \<Rightarrow> string" where
  "strip_chars cs s =
     rev (dropWhile (\<lambda>c. c \<in> set cs) (rev (dropWhile (\<lambda>c. c \<in> set cs) s)))"

lemma strip_chars_free: "(\<forall>c \<in> set s. c \<notin> set cs) \<Longrightarrow> strip_chars cs s = s"
proof -
  assume free: "\<forall>c \<in> set s. c \<notin> set cs"
  then have "dropWhile (\<lambda>c. c \<in> set cs) s = s"
    by (intro dropWhile_id) auto
  moreover have "dropWhile (\<lambda>c. c \<in> set cs) (rev s) = rev s"
    using free by (intro dropWhile_id) auto
  ultimately show ?thesis by (simp add: strip_chars_def)
qed

lemma strip_chars_ends:
  assumes "strip_chars cs s = r" and "r \<noteq> []"
  shows "hd r \<notin> set cs \<and> last r \<notin> set cs"
proof -
  let ?P = "\<lambda>c. c \<in> set cs"
  define d where "d = dropWhile ?P s"
  define e where "e = dropWhile ?P (rev d)"
  have r: "r = rev e"
    using assms(1) by (simp add: strip_chars_def d_def e_def)
  with assms(2) have e: "e \<noteq> []" by simp
  then have he: "\<not> ?P (hd e)"
    unfolding e_def by (rule hd_dropWhile)
  have "hd e \<in> set (rev d)"
    using e unfolding e_def by (metis hd_in_set set_dropWhileD)
  then have le: "last e = last (rev d)" and d: "d \<noteq> []"
    using he unfolding e_def by (auto intro: dropWhile_last)
  from d have "\<not> ?P (hd d)"
    unfolding d_def by (rule hd_dropWhile)
  with le d have "\<not> ?P (last e)"
    by (simp add: last_rev)
  with he e r show ?thesis
    by (simp add: hd_rev last_rev)
qed

text \<open>
  \<open>strip\<close> removes exactly the surrounding runs: a text that holds none of the
  stripped characters, between runs made only of them, comes back unchanged.
\<close>

lemma strip_chars_quoted:
  assumes m: "\<forall>c \<in> set m. c \<notin> set cs" and q: "set q \<subseteq> set cs"
    and q': "set q' \<subseteq> set cs"
  shows "strip_chars cs (q @ m @ q') = m"
proof -
  let ?P = "\<lambda>c. c \<in> set cs"
  have d: "dropWhile ?P (q @ m @ q') = (if m = [] then [] else m @ q')"
    using m q q' by (cases m) (auto simp: dropWhile_append)
  have "dropWhile ?P (rev q' @ rev m) = dropWhile ?P (rev m)"
    using q' by (intro dropWhile_append2) auto
  also have "\<dots> = rev m"
    using m by (intro dropWhile_id) auto
  finally have "dropWhile ?P (rev q' @ rev m) = rev m" .
  then show ?thesis
    by (simp add: strip_chars_def d)
qed

end
