(* ===== verification/Py_Float.thy ===== *)
theory Py_Float
  imports Complex_Main Py_Str
begin

text \<open>
  Python's \<open>float\<close> as IEEE 754 binary64 with round-to-nearest-even: a value is a
  finite rational that binary64 represents (\<open>Fin\<close>), an infinity (\<open>Inf neg\<close>) or
  NaN. The sign of a zero is not kept (see the root theory). The theory holds
  \<^item> the rounding of an exact rational to binary64 (\<open>round64\<close>), written out with its
  exponent (\<open>flog2\<close>), its quantum \<open>2 powi qexp\<close> and ties-to-even (\<open>round_even\<close>);
  \<^item> the product of two floats (\<open>fmul\<close>), C's \<open>a * b\<close> in \<open>float_mul\<close>;
  \<^item> the conversion \<open>float(s)\<close> of a string (\<open>float_of_str\<close>), CPython's
  \<open>PyFloat_FromString\<close>: underscores, surrounding white space, the decimal grammar with
  an exponent, \<open>inf\<close>, \<open>infinity\<close>, \<open>nan\<close>, and a correctly rounded result;
  and the type invariant that every float the model computes is a binary64 value.
\<close>

section \<open>Values\<close>

datatype pyfloat = Fin rat | Inf bool | NaN

section \<open>Binary exponent of a positive rational\<close>

fun nat_log2 :: "nat \<Rightarrow> nat" where
  "nat_log2 n = (if n < 2 then 0 else Suc (nat_log2 (n div 2)))"

declare nat_log2.simps [simp del]

definition flog2 :: "rat \<Rightarrow> int" where
  "flog2 a =
     (let (p, q) = quotient_of a;
          e = int (nat_log2 (nat p)) - int (nat_log2 (nat q))
      in if (2::rat) powi e \<le> a then e else e - 1)"

section \<open>Rounding to binary64\<close>

text \<open>
  Round half to even of a rational to an integer: the nearer of \<open>\<lfloor>x\<rfloor>\<close> and
  \<open>\<lfloor>x\<rfloor> + 1\<close>, the even one on a tie.
\<close>

definition round_even :: "rat \<Rightarrow> int" where
  "round_even x =
     (let f = \<lfloor>x\<rfloor>; d = x - of_int f
      in if d < 1/2 then f else if 1/2 < d then f + 1 else if even f then f else f + 1)"

text \<open>
  The quantum of a positive \<open>a\<close>: binary64 has 53 significant bits, so in the binade
  \<open>[2^e, 2^(e+1))\<close> its values are the multiples of \<open>2^(e - 52)\<close>; below
  \<open>2^-1022\<close> the subnormals are the multiples of \<open>2^-1074\<close>.
\<close>

definition qexp :: "rat \<Rightarrow> int" where
  "qexp a = max (flog2 a - 52) (-1074)"

definition round64 :: "rat \<Rightarrow> pyfloat" where
  "round64 x =
     (if x = 0 then Fin 0
      else let a = \<bar>x\<bar>; k = qexp a;
               r = of_int (round_even (a / 2 powi k)) * 2 powi k
           in if 2 powi 1024 \<le> r then Inf (x < 0) else Fin (if x < 0 then - r else r))"

text \<open>A rational is a binary64 value: an integer multiple of its quantum, below 2^1024.\<close>

definition is_double :: "rat \<Rightarrow> bool" where
  "is_double x \<longleftrightarrow>
     x = 0 \<or> (let a = \<bar>x\<bar>; m = a / 2 powi qexp a in of_int \<lfloor>m\<rfloor> = m \<and> a < 2 powi 1024)"

fun pyfloat_ok :: "pyfloat \<Rightarrow> bool" where
  "pyfloat_ok (Fin x) = is_double x"
| "pyfloat_ok (Inf s) = True"
| "pyfloat_ok NaN = True"

section \<open>Multiplication\<close>

text \<open>
  IEEE multiplication: NaN absorbs, zero times infinity is NaN, the sign of an infinite
  product is the exclusive or of the signs, a finite product is rounded.
\<close>

fun fmul :: "pyfloat \<Rightarrow> pyfloat \<Rightarrow> pyfloat" where
  "fmul NaN y = NaN"
| "fmul x NaN = NaN"
| "fmul (Inf s) (Inf t) = Inf (s \<noteq> t)"
| "fmul (Inf s) (Fin y) = (if y = 0 then NaN else Inf (s \<noteq> (y < 0)))"
| "fmul (Fin x) (Inf t) = (if x = 0 then NaN else Inf ((x < 0) \<noteq> t))"
| "fmul (Fin x) (Fin y) = round64 (x * y)"

section \<open>\<open>float(s)\<close>\<close>

text \<open>
  White space for \<open>float()\<close>: the ASCII spaces \<open>Py_ISSPACE\<close> strips (tab, line feed,
  vertical tab, form feed, carriage return, space) and the code points above 127 that
  \<open>_PyUnicode_TransformDecimalAndSpaceToASCII\<close> turns into a space (NEL U+0085,
  NO-BREAK SPACE U+00A0). The separators U+001C to U+001F stay below 127 and are not
  white space here.
\<close>

definition float_space :: "char \<Rightarrow> bool" where
  "float_space c \<longleftrightarrow> of_char c \<in> ({9, 10, 11, 12, 13, 32, 133, 160} :: nat set)"

definition is_digit :: "char \<Rightarrow> bool" where
  "is_digit c \<longleftrightarrow> 48 \<le> (of_char c :: nat) \<and> (of_char c :: nat) \<le> 57"

definition digit_val :: "char \<Rightarrow> nat" where
  "digit_val c = of_char c - 48"

definition digits_val :: "string \<Rightarrow> nat" where
  "digits_val ds = foldl (\<lambda>n d. 10 * n + digit_val d) 0 ds"

text \<open>
  \<open>_Py_string_to_number_with_underscores_or_die\<close>: if the string holds an underscore,
  every underscore must follow a digit, every character after an underscore must be a
  digit, and the string must not end with one; the underscores are then removed.
  The scan starts with a previous character that is no digit.
\<close>

fun underscores_ok :: "char \<Rightarrow> string \<Rightarrow> bool" where
  "underscores_ok p [] = (p \<noteq> CHR ''_'')"
| "underscores_ok p (c # cs) =
     (if c = CHR ''_'' then is_digit p \<and> underscores_ok c cs
      else (p \<noteq> CHR ''_'' \<or> is_digit c) \<and> underscores_ok c cs)"

definition remove_underscores :: "string \<Rightarrow> string option" where
  "remove_underscores s =
     (if CHR ''_'' \<notin> set s then Some s
      else if underscores_ok (CHR 0x00) s then Some (filter (\<lambda>c. c \<noteq> CHR ''_'') s)
      else None)"

definition strip_space :: "string \<Rightarrow> string" where
  "strip_space s = rev (dropWhile float_space (rev (dropWhile float_space s)))"

text \<open>An optional sign: \<open>True\<close> for a minus.\<close>

definition parse_sign :: "string \<Rightarrow> bool \<times> string" where
  "parse_sign s =
     (case s of c # r \<Rightarrow> if c = CHR ''-'' then (True, r) else if c = CHR ''+'' then (False, r)
                          else (False, s)
      | [] \<Rightarrow> (False, []))"

text \<open>The exponent part \<open>(e|E)[sign]digits\<close>, which must end the string; none is 0.\<close>

definition parse_exponent :: "string \<Rightarrow> int option" where
  "parse_exponent s =
     (case s of [] \<Rightarrow> Some 0
      | c # r \<Rightarrow>
          if c \<noteq> CHR ''e'' \<and> c \<noteq> CHR ''E'' then None
          else (let (neg, r') = parse_sign r; ds = takeWhile is_digit r'
                in if ds = [] \<or> dropWhile is_digit r' \<noteq> [] then None
                   else Some ((if neg then -1 else 1) * int (digits_val ds))))"

text \<open>
  The decimal grammar \<open>[sign](digits[.digits]|.digits)[exponent]\<close>, the whole string
  consumed, read as the exact rational it denotes.
\<close>

definition parse_decimal :: "string \<Rightarrow> rat option" where
  "parse_decimal s =
     (let (neg, s1) = parse_sign s;
          ip = takeWhile is_digit s1; s2 = dropWhile is_digit s1;
          (fp, s3) = (case s2 of c # r \<Rightarrow>
                         if c = CHR ''.'' then (takeWhile is_digit r, dropWhile is_digit r)
                         else ([], s2)
                      | [] \<Rightarrow> ([], []))
      in if ip = [] \<and> fp = [] then None
         else case parse_exponent s3 of None \<Rightarrow> None
              | Some e \<Rightarrow> Some ((if neg then -1 else 1) * of_nat (digits_val (ip @ fp))
                                 * 10 powi (e - int (length fp))))"

definition lower_ascii :: "char \<Rightarrow> char" where
  "lower_ascii c =
     (case map_of (zip ''ABCDEFGHIJKLMNOPQRSTUVWXYZ'' ''abcdefghijklmnopqrstuvwxyz'') c of
        Some d \<Rightarrow> d
      | None \<Rightarrow> c)"

text \<open>\<open>_Py_parse_inf_or_nan\<close>: a sign, then \<open>inf\<close>, \<open>infinity\<close> or \<open>nan\<close> in any case.\<close>

definition parse_special :: "string \<Rightarrow> pyfloat option" where
  "parse_special s =
     (let (neg, r) = parse_sign s; w = map lower_ascii r
      in if w = ''inf'' \<or> w = ''infinity'' then Some (Inf neg)
         else if w = ''nan'' then Some NaN else None)"

definition float_of_str :: "string \<Rightarrow> pyfloat result" where
  "float_of_str s =
     (case remove_underscores s of None \<Rightarrow> Inl ValueError
      | Some s' \<Rightarrow>
          (let t = strip_space s'
           in if t = [] then Inl ValueError
              else case parse_decimal t of Some q \<Rightarrow> Inr (round64 q)
                   | None \<Rightarrow> (case parse_special t of Some v \<Rightarrow> Inr v
                              | None \<Rightarrow> Inl ValueError)))"

section \<open>The binary exponent and the rounding\<close>

lemma nat_log2_bounds:
  "0 < n \<Longrightarrow> 2 ^ nat_log2 n \<le> n \<and> n < 2 ^ Suc (nat_log2 n)"
proof (induction n rule: nat_log2.induct)
  case (1 n)
  show ?case
  proof (cases "n < 2")
    case True
    with "1.prems" show ?thesis by (simp add: nat_log2.simps)
  next
    case False
    then have "0 < n div 2" by simp
    with "1.IH" False have IH: "2 ^ nat_log2 (n div 2) \<le> n div 2"
        "n div 2 < 2 ^ Suc (nat_log2 (n div 2))" by auto
    have eq: "nat_log2 n = Suc (nat_log2 (n div 2))"
      using False by (simp add: nat_log2.simps)
    show ?thesis
      using IH unfolding eq by auto
  qed
qed

lemma pow2_less_iff [simp]: "(2::rat) powi m < 2 powi n \<longleftrightarrow> m < n"
proof
  assume "(2::rat) powi m < 2 powi n"
  then show "m < n"
    by (metis linorder_not_less order_less_asym one_less_numeral_iff power_int_increasing
          semiring_norm(76) order.trans less_imp_le)
next
  assume "m < n"
  then show "(2::rat) powi m < 2 powi n"
    by (rule power_int_strict_increasing) simp
qed

lemma pow2_le_iff [simp]: "(2::rat) powi m \<le> 2 powi n \<longleftrightarrow> m \<le> n"
  by (meson linorder_not_less pow2_less_iff)

lemma pow2_of_nat_diff:
  "(2::rat) powi (int a - int b) = 2 ^ a / 2 ^ b"
  by (simp add: power_int_diff)

lemma pow2_add: "(2::rat) powi (i + j) = 2 powi i * 2 powi j"
  by (simp add: power_int_add)

lemma flog2_bounds:
  assumes "0 < a"
  shows "2 powi flog2 a \<le> a \<and> a < 2 powi (flog2 a + 1)"
proof -
  obtain p q where pq: "quotient_of a = (p, q)" by (cases "quotient_of a")
  have q: "0 < q" using pq by (rule quotient_of_denom_pos)
  have a: "a = of_int p / of_int q" using pq by (rule quotient_of_div)
  have p: "0 < p" using assms q a by (simp add: zero_less_divide_iff)
  define lp where "lp = nat_log2 (nat p)"
  define lq where "lq = nat_log2 (nat q)"
  define e where "e = int lp - int lq"
  have np: "2 ^ lp \<le> nat p" "nat p < 2 ^ Suc lp"
    using nat_log2_bounds [of "nat p"] p by (auto simp: lp_def)
  have nq: "2 ^ lq \<le> nat q" "nat q < 2 ^ Suc lq"
    using nat_log2_bounds [of "nat q"] q by (auto simp: lq_def)
  have bp: "2 ^ lp \<le> (of_int p :: rat)" "(of_int p :: rat) < 2 ^ Suc lp"
  proof -
    have "(of_nat (2 ^ lp) :: rat) \<le> of_nat (nat p)" "(of_nat (nat p) :: rat) < of_nat (2 ^ Suc lp)"
      using np by (simp_all only: of_nat_le_iff of_nat_less_iff)
    then show "2 ^ lp \<le> (of_int p :: rat)" "(of_int p :: rat) < 2 ^ Suc lp"
      using p by simp_all
  qed
  have bq: "2 ^ lq \<le> (of_int q :: rat)" "(of_int q :: rat) < 2 ^ Suc lq"
  proof -
    have "(of_nat (2 ^ lq) :: rat) \<le> of_nat (nat q)" "(of_nat (nat q) :: rat) < of_nat (2 ^ Suc lq)"
      using nq by (simp_all only: of_nat_le_iff of_nat_less_iff)
    then show "2 ^ lq \<le> (of_int q :: rat)" "(of_int q :: rat) < 2 ^ Suc lq"
      using q by simp_all
  qed
  have up: "a < 2 powi (e + 1)"
  proof -
    have "e + 1 = int (Suc lp) - int lq" by (simp add: e_def)
    then have "2 powi (e + 1) = (2::rat) ^ Suc lp / 2 ^ lq"
      by (simp only: pow2_of_nat_diff)
    moreover have "of_int p / of_int q \<le> (of_int p :: rat) / 2 ^ lq"
      using bq(1) p q by (intro divide_left_mono) auto
    moreover have "(of_int p :: rat) / 2 ^ lq < 2 ^ Suc lp / 2 ^ lq"
      using bp(2) by (intro divide_strict_right_mono) auto
    ultimately show ?thesis by (simp add: a)
  qed
  have low: "2 powi (e - 1) < a"
  proof -
    have "e - 1 = int lp - int (Suc lq)" by (simp add: e_def)
    then have "2 powi (e - 1) = (2::rat) ^ lp / 2 ^ Suc lq"
      by (simp only: pow2_of_nat_diff)
    moreover have "(2::rat) ^ lp / 2 ^ Suc lq < 2 ^ lp / of_int q"
      using bq(2) q by (intro divide_strict_left_mono) auto
    moreover have "(2::rat) ^ lp / of_int q \<le> of_int p / of_int q"
      using bp(1) q by (intro divide_right_mono) auto
    ultimately show ?thesis by (simp add: a)
  qed
  have fl: "flog2 a = (if 2 powi e \<le> a then e else e - 1)"
    by (simp add: flog2_def pq lp_def lq_def e_def)
  show ?thesis
  proof (cases "2 powi e \<le> a")
    case True
    with up fl show ?thesis by simp
  next
    case False
    with low fl show ?thesis by simp
  qed
qed

lemma flog2_unique:
  assumes "2 powi e \<le> a" and "a < 2 powi (e + 1)"
  shows "flog2 a = e"
proof -
  have "0 < a" using assms(1) by (meson less_le_trans zero_less_power_int zero_less_numeral)
  then have b: "2 powi flog2 a \<le> a" "a < 2 powi (flog2 a + 1)"
    using flog2_bounds by auto
  from b(1) assms(2) have "flog2 a < e + 1" by (meson le_less_trans pow2_less_iff)
  moreover from assms(1) b(2) have "e < flog2 a + 1" by (meson le_less_trans pow2_less_iff)
  ultimately show ?thesis by simp
qed

lemma round_even_cases: "round_even x = \<lfloor>x\<rfloor> \<or> round_even x = \<lfloor>x\<rfloor> + 1"
  by (auto simp: round_even_def Let_def)

lemma round_even_of_int [simp]: "round_even (of_int n) = n"
  by (simp add: round_even_def)

lemma round_even_unique:
  assumes "\<bar>x - of_int m\<bar> < 1/2"
  shows "round_even x = m"
proof -
  have h: "x - of_int m < 1/2" "of_int m - x < 1/2"
    using assms by (auto simp only: abs_less_iff minus_diff_eq)
  have f: "\<lfloor>x\<rfloor> = m \<or> \<lfloor>x\<rfloor> = m - 1"
    using h by (auto simp: floor_eq_iff)
  show ?thesis
  proof (cases "\<lfloor>x\<rfloor> = m")
    case True
    with h have "x - of_int \<lfloor>x\<rfloor> < 1/2" by simp
    with True show ?thesis by (simp add: round_even_def)
  next
    case False
    with f have fm: "\<lfloor>x\<rfloor> = m - 1" by simp
    with h have "1/2 < x - of_int \<lfloor>x\<rfloor>" by simp
    with fm show ?thesis by (simp add: round_even_def)
  qed
qed

lemma round_even_error: "\<bar>x - of_int (round_even x)\<bar> \<le> 1/2"
proof -
  have "of_int \<lfloor>x\<rfloor> \<le> x" "x < of_int \<lfloor>x\<rfloor> + 1" by linarith+
  then show ?thesis
    by (auto simp: round_even_def Let_def abs_le_iff)
qed

lemma round_even_le: "x < of_int N \<Longrightarrow> round_even x \<le> N"
proof -
  assume "x < of_int N"
  then have "\<lfloor>x\<rfloor> < N" by linarith
  then show ?thesis using round_even_cases [of x] by auto
qed

lemma round_even_nonneg: "0 \<le> x \<Longrightarrow> 0 \<le> round_even x"
  using round_even_cases [of x] by fastforce

lemma is_int_rat_iff: "of_int \<lfloor>m\<rfloor> = m \<longleftrightarrow> (\<exists>n. m = (of_int n :: rat))"
  by (metis floor_of_int)

lemma is_double_0 [simp]: "is_double 0"
  by (simp add: is_double_def)

lemma is_double_uminus [simp]: "is_double (- x) = is_double x"
  by (simp add: is_double_def)

lemma round64_double:
  assumes "is_double x"
  shows "round64 x = Fin x"
proof (cases "x = 0")
  case True
  then show ?thesis by (simp add: round64_def)
next
  case False
  let ?a = "\<bar>x\<bar>" and ?k = "qexp \<bar>x\<bar>"
  from assms False have m: "of_int \<lfloor>?a / 2 powi ?k\<rfloor> = ?a / 2 powi ?k" and
    lt: "?a < 2 powi 1024"
    by (auto simp: is_double_def Let_def)
  then have "of_int (round_even (?a / 2 powi ?k)) = ?a / 2 powi ?k"
    by (metis round_even_of_int)
  then have "of_int (round_even (?a / 2 powi ?k)) * 2 powi ?k = ?a"
    by simp
  with lt False show ?thesis
    by (auto simp: round64_def Let_def)
qed

lemma flog2_le_of_le:
  assumes "0 < r" and "r \<le> 2 powi j"
  shows "flog2 r \<le> j"
  using flog2_bounds [OF assms(1)] assms(2) by (meson order_trans pow2_le_iff)

lemma is_double_multiple:
  assumes n: "0 < n" "n \<le> 2 ^ 53" and k: "-1074 \<le> k"
    and r: "r = of_int n * 2 powi k" and lt: "r < 2 powi 1024"
  shows "is_double r"
proof -
  have rpos: "0 < r" using n r by simp
  have "r \<le> 2 ^ 53 * 2 powi k"
    using n r by (simp add: mult_right_mono)
  also have "\<dots> = 2 powi (k + 53)"
    by (simp add: power_int_add)
  finally have "r \<le> 2 powi (k + 53)" .
  with rpos have f: "flog2 r \<le> k + 53"
    by (rule flog2_le_of_le)
  let ?q = "qexp r"
  have "\<exists>i. r / 2 powi ?q = of_int i"
  proof (cases "flog2 r \<le> k + 52")
    case True
    then have q: "?q \<le> k" using k by (simp add: qexp_def)
    have "r / 2 powi ?q = of_int n * 2 powi (k - ?q)"
      using r by (simp add: power_int_diff)
    also have "\<dots> = of_int (n * 2 ^ nat (k - ?q))"
      using q by (simp add: power_int_nonneg_exp)
    finally show ?thesis by blast
  next
    case False
    with f have fr: "flog2 r = k + 53" by simp
    then have "2 powi (k + 53) \<le> r"
      using flog2_bounds [OF rpos] by simp
    then have "2 ^ 53 * 2 powi k \<le> of_int n * (2 powi k :: rat)"
      using r by (simp add: power_int_add)
    then have "(of_int (2 ^ 53) :: rat) \<le> of_int n" by simp
    then have "2 ^ 53 \<le> n" by (simp only: of_int_le_iff)
    with n have nn: "n = 2 ^ 53" by simp
    have q: "?q = k + 1" using fr k by (simp add: qexp_def)
    have "r / 2 powi ?q = of_int (2 ^ 52)"
      using r nn q by (simp add: power_int_add)
    then show ?thesis by blast
  qed
  with rpos lt show ?thesis
    by (auto simp: is_double_def Let_def is_int_rat_iff)
qed

lemma round64_ok: "pyfloat_ok (round64 x)"
proof (cases "x = 0")
  case True
  then show ?thesis by (simp add: round64_def)
next
  case False
  define a where "a = \<bar>x\<bar>"
  define k where "k = qexp a"
  define n where "n = round_even (a / 2 powi k)"
  define r where "r = (of_int n * 2 powi k :: rat)"
  have apos: "0 < a" using False by (simp add: a_def)
  have k: "-1074 \<le> k" "flog2 a - 52 \<le> k" by (simp_all add: k_def qexp_def)
  have "a < 2 powi (flog2 a + 1)" using flog2_bounds [OF apos] by simp
  also have "\<dots> = 2 powi ((flog2 a - 52) + 53)"
    by (rule arg_cong [where f = "\<lambda>e. (2::rat) powi e"]) simp
  also have "\<dots> = 2 ^ 53 * 2 powi (flog2 a - 52)"
    by (simp only: pow2_add power_int_numeral mult.commute)
  also have "\<dots> \<le> 2 ^ 53 * 2 powi k" using k(2) by simp
  finally have "a / 2 powi k < of_int (2 ^ 53)" by (simp add: pos_divide_less_eq)
  then have n53: "n \<le> 2 ^ 53" unfolding n_def by (rule round_even_le)
  have n0: "0 \<le> n" unfolding n_def using apos by (intro round_even_nonneg) simp
  have r64: "round64 x = (if 2 powi 1024 \<le> r then Inf (x < 0) else Fin (if x < 0 then - r else r))"
    using False by (simp add: round64_def Let_def a_def k_def n_def r_def)
  show ?thesis
  proof (cases "2 powi 1024 \<le> r")
    case True
    with r64 show ?thesis by simp
  next
    case False
    have "is_double r"
    proof (cases "n = 0")
      case True
      then show ?thesis by (simp add: r_def)
    next
      case False
      with n0 have "0 < n" by simp
      with n53 k(1) \<open>\<not> 2 powi 1024 \<le> r\<close> show ?thesis
        by (intro is_double_multiple [of n k]) (simp_all add: r_def)
    qed
    with False r64 show ?thesis by simp
  qed
qed

lemma fmul_ok: "pyfloat_ok (fmul x y)"
  by (cases x; cases y) (simp_all add: round64_ok)

lemma fmul_one_right:
  assumes "pyfloat_ok v"
  shows "fmul v (Fin 1) = v"
proof (cases v)
  case (Fin x)
  with assms show ?thesis by (simp add: round64_double)
qed simp_all

lemma round64_cert:
  assumes "2 powi e \<le> x" and "x < 2 powi (e + 1)"
    and "\<bar>x / 2 powi (max (e - 52) (-1074)) - of_int m\<bar> < 1/2"
  shows "round64 x =
           (let r = of_int m * 2 powi (max (e - 52) (-1074))
            in if 2 powi 1024 \<le> r then Inf False else Fin r)"
proof -
  have x: "0 < x" using assms(1) by (meson less_le_trans zero_less_power_int zero_less_numeral)
  have "flog2 x = e" using assms(1,2) by (rule flog2_unique)
  then have "qexp x = max (e - 52) (-1074)" by (simp add: qexp_def)
  moreover have "round_even (x / 2 powi (max (e - 52) (-1074))) = m"
    using assms(3) by (rule round_even_unique)
  ultimately show ?thesis using x by (simp add: round64_def Let_def)
qed

lemmas float_parse_defs = float_of_str_def remove_underscores_def strip_space_def parse_decimal_def
  parse_sign_def parse_exponent_def parse_special_def digits_val_def digit_val_def is_digit_def
  float_space_def lower_ascii_def

lemma is_double_of_int:
  assumes "\<bar>n\<bar> \<le> 2 ^ 53"
  shows "is_double (of_int n)"
proof -
  have pos: "is_double (of_int m)" if "0 < m" "m \<le> 2 ^ 53" for m :: int
  proof (rule is_double_multiple [of m 0])
    have "(of_int m :: rat) \<le> of_int (2 ^ 53)" using that(2) by (simp only: of_int_le_iff)
    also have "\<dots> < 2 powi 1024" by simp
    finally show "(of_int m :: rat) < 2 powi 1024" .
  qed (use that in simp_all)
  show ?thesis
  proof (cases "0 < n")
    case True
    with assms pos show ?thesis by simp
  next
    case False
    show ?thesis
    proof (cases "n = 0")
      case False
      with \<open>\<not> 0 < n\<close> assms have "is_double (of_int (- n))" by (intro pos) auto
      then show ?thesis by simp
    qed simp
  qed
qed

lemma is_double_numeral [simp]: "numeral k \<le> (2 ^ 53 :: int) \<Longrightarrow> is_double (numeral k)"
  using is_double_of_int [of "numeral k"] by simp

lemma is_double_1 [simp]: "is_double 1"
  using is_double_of_int [of 1] by simp

text \<open>Every float that \<open>float()\<close> returns is a binary64 value.\<close>

lemma parse_special_ok: "parse_special s = Some v \<Longrightarrow> pyfloat_ok v"
  by (auto simp: parse_special_def Let_def split: prod.splits if_splits)

lemma float_of_str_ok: "float_of_str s = Inr v \<Longrightarrow> pyfloat_ok v"
  by (auto simp: float_of_str_def Let_def round64_ok parse_special_ok
        split: option.splits if_splits)

end
