(* ===== verification/Py_Repr.thy ===== *)
theory Py_Repr
  imports Py_Float
begin

text \<open>
  \<open>repr\<close> of a Python float, as \<open>json.dumps\<close> writes the \<open>value\<close> of each metric
  (\<open>src/app.py\<close> line 215; \<open>float.__repr__\<close>, CPython's \<open>float_repr\<close> with
  \<open>PyOS_double_to_string(x, 'r', 0, Py_DTSF_ADD_DOT_0)\<close>): the shortest string of
  significant digits that reads back as the same float (\<open>_Py_dg_dtoa\<close> in mode 0; of
  two such strings of that length the nearer one, on a tie the one with the even last
  digit), written in fixed notation when the decimal point position \<open>decpt\<close> satisfies
  \<open>-4 < decpt \<le> 16\<close> (with \<open>.0\<close> appended to an integer) and in exponent notation
  \<open>d.ddde+XX\<close> otherwise (\<open>format_float_short\<close>).
\<close>

section \<open>Decimal digit strings\<close>

definition digit_char :: "nat \<Rightarrow> char" where
  "digit_char d = ''0123456789'' ! d"

fun nat_str :: "nat \<Rightarrow> string" where
  "nat_str n = (if n < 10 then [digit_char n] else nat_str (n div 10) @ [digit_char (n mod 10)])"

declare nat_str.simps [simp del]

lemma nat_str_small: "n < 10 \<Longrightarrow> nat_str n = [digit_char n]"
  by (subst nat_str.simps) simp

lemma nat_str_big: "\<not> n < 10 \<Longrightarrow> nat_str n = nat_str (n div 10) @ [digit_char (n mod 10)]"
  by (subst nat_str.simps) simp

text \<open>Trailing zeros of a digit string, which \<open>_Py_dg_dtoa\<close> never returns.\<close>

definition strip_zeros :: "string \<Rightarrow> string" where
  "strip_zeros ds = rev (dropWhile (\<lambda>c. c = CHR ''0'') (rev ds))"

section \<open>The shortest digits that read back\<close>

text \<open>
  A binary64 value \<open>a > 0\<close> is a finite decimal: \<open>a * 10^j\<close> is an integer for some
  \<open>j \<le> 1074\<close>. \<open>dec_scale\<close> finds the least such \<open>j\<close>, trying at most \<open>1074\<close>
  values; \<open>N = a * 10^j\<close> is then the exact digit string of \<open>a\<close>.
\<close>

fun dec_scale :: "rat \<Rightarrow> nat \<Rightarrow> nat \<Rightarrow> nat" where
  "dec_scale a j 0 = j"
| "dec_scale a j (Suc f) = (if of_int \<lfloor>a * 10 ^ j\<rfloor> = a * 10 ^ j then j else dec_scale a (Suc j) f)"

definition dec_exp :: "rat \<Rightarrow> nat" where
  "dec_exp a = dec_scale a 0 1074"

text \<open>\<open>m * 10^e\<close> reads back as \<open>a\<close>.\<close>

definition round_trips :: "rat \<Rightarrow> nat \<Rightarrow> int \<Rightarrow> bool" where
  "round_trips a m e \<longleftrightarrow> round64 (of_nat m * 10 powi e) = Fin a"

text \<open>
  The candidates with the last \<open>d\<close> digits of \<open>N * 10^-j\<close> dropped: the truncation
  \<open>lo\<close> and, unless it is exact, \<open>lo + 1\<close>; the nearer of those that read back, on a tie
  the even one.
\<close>

definition digits_at :: "rat \<Rightarrow> nat \<Rightarrow> nat \<Rightarrow> nat \<Rightarrow> (nat \<times> int) option" where
  "digits_at a N j d =
     (let lo = N div 10 ^ d; r = N mod 10 ^ d; e = int d - int j;
          lo_ok = round_trips a lo e; hi_ok = r \<noteq> 0 \<and> round_trips a (lo + 1) e
      in if lo_ok \<and> hi_ok
         then Some (if 2 * r < 10 ^ d \<or> (2 * r = 10 ^ d \<and> even lo) then lo else lo + 1, e)
         else if lo_ok then Some (lo, e) else if hi_ok then Some (lo + 1, e) else None)"

text \<open>Drop as many digits as possible: one digit kept first, then two, and so on.\<close>

fun shortest_from :: "rat \<Rightarrow> nat \<Rightarrow> nat \<Rightarrow> nat \<Rightarrow> nat \<times> int" where
  "shortest_from a N j 0 = (N, - int j)"
| "shortest_from a N j (Suc d) =
     (case digits_at a N j (Suc d) of Some r \<Rightarrow> r | None \<Rightarrow> shortest_from a N j d)"

definition repr_digits :: "rat \<Rightarrow> nat \<times> int" where
  "repr_digits a =
     (let j = dec_exp a; N = nat \<lfloor>a * 10 ^ j\<rfloor> in shortest_from a N j (length (nat_str N) - 1))"

section \<open>Writing the digits\<close>

text \<open>The exponent as \<open>"%+.02d"\<close> writes it: a sign and at least two digits.\<close>

definition exp_str :: "int \<Rightarrow> string" where
  "exp_str x =
     (if x < 0 then CHR ''-'' else CHR ''+'') #
       (let s = nat_str (nat \<bar>x\<bar>) in if length s < 2 then CHR ''0'' # s else s)"

text \<open>\<open>format_float_short\<close> in mode \<open>'r'\<close> for digits \<open>D\<close> and the point position
  \<open>decpt\<close> (the value is \<open>0.D * 10^decpt\<close>).\<close>

definition format_short :: "string \<Rightarrow> int \<Rightarrow> string" where
  "format_short D decpt =
     (if decpt \<le> -4 \<or> 16 < decpt
      then hd D # (if tl D = [] then [] else CHR ''.'' # tl D) @ CHR ''e'' # exp_str (decpt - 1)
      else if decpt \<le> 0 then ''0.'' @ replicate (nat (- decpt)) (CHR ''0'') @ D
      else if int (length D) \<le> decpt then D @ replicate (nat decpt - length D) (CHR ''0'') @ ''.0''
      else take (nat decpt) D @ CHR ''.'' # drop (nat decpt) D)"

text \<open>\<open>float.__repr__\<close>; the sign of a zero is not kept in the model.\<close>

definition float_repr :: "pyfloat \<Rightarrow> string" where
  "float_repr v =
     (case v of
        NaN \<Rightarrow> ''nan''
      | Inf neg \<Rightarrow> (if neg then ''-inf'' else ''inf'')
      | Fin x \<Rightarrow>
          if x = 0 then ''0.0''
          else (let (m, e) = repr_digits \<bar>x\<bar>; ds = nat_str m
                in (if x < 0 then ''-'' else []) @ format_short (strip_zeros ds) (int (length ds) + e)))"

section \<open>Digit strings read back\<close>

lemma digit_char_props:
  assumes "d < 10"
  shows "is_digit (digit_char d) \<and> digit_val (digit_char d) = d"
proof -
  have "d \<in> {0, 1, 2, 3, 4, 5, 6, 7, 8, 9}" using assms by auto
  then show ?thesis by (auto simp: digit_char_def is_digit_def digit_val_def)
qed

lemma digits_val_append:
  "digits_val (xs @ ys) = digits_val xs * 10 ^ length ys + digits_val ys"
proof (induction ys rule: rev_induct)
  case Nil
  then show ?case by (simp add: digits_val_def)
next
  case (snoc y ys)
  then show ?case by (simp add: digits_val_def algebra_simps)
qed

lemma digits_val_zeros [simp]: "digits_val (replicate k (CHR ''0'')) = 0"
  by (induction k) (simp_all add: digits_val_def digit_val_def replicate_app_Cons_same [symmetric]
      del: replicate_app_Cons_same)

lemma nat_str_props: "(\<forall>c \<in> set (nat_str n). is_digit c) \<and> digits_val (nat_str n) = n \<and> nat_str n \<noteq> []"
proof (induction n rule: nat_str.induct)
  case (1 n)
  show ?case
  proof (cases "n < 10")
    case True
    then show ?thesis
      using digit_char_props [OF True] by (simp add: nat_str_small digits_val_def)
  next
    case False
    have m: "n mod 10 < 10" by simp
    have "digits_val (nat_str n) = digits_val (nat_str (n div 10)) * 10 + n mod 10"
      using False digit_char_props [OF m] by (simp add: nat_str_big digits_val_append digits_val_def)
    with "1.IH" False digit_char_props [OF m] show ?thesis
      by (simp add: nat_str_big)
  qed
qed

lemma strip_zeros_append: "\<exists>z. ds = strip_zeros ds @ replicate z (CHR ''0'')"
proof -
  define t where "t = takeWhile (\<lambda>c. c = CHR ''0'') (rev ds)"
  have "\<forall>y \<in> set t. y = CHR ''0''" by (auto simp: t_def dest: set_takeWhileD)
  then have t: "replicate (length t) (CHR ''0'') = t" by (rule replicate_length_same)
  have "ds = rev (t @ dropWhile (\<lambda>c. c = CHR ''0'') (rev ds))" by (simp add: t_def)
  then have "ds = rev (replicate (length t) (CHR ''0'') @ dropWhile (\<lambda>c. c = CHR ''0'') (rev ds))"
    by (simp only: t)
  then have "ds = strip_zeros ds @ replicate (length t) (CHR ''0'')"
    by (simp add: strip_zeros_def)
  then show ?thesis ..
qed

section \<open>The digits read back\<close>

lemma dec_scale_step:
  "0 < f \<Longrightarrow> dec_scale a j f =
     (if of_int \<lfloor>a * 10 ^ j\<rfloor> = a * 10 ^ j then j else dec_scale a (Suc j) (f - 1))"
  by (cases f) simp_all

lemma dec_scale_int:
  "of_int \<lfloor>a * 10 ^ (j + f)\<rfloor> = a * 10 ^ (j + f) \<Longrightarrow>
   of_int \<lfloor>a * 10 ^ dec_scale a j f\<rfloor> = a * 10 ^ dec_scale a j f"
  by (induction a j f rule: dec_scale.induct) auto

lemma double_scaled_int:
  assumes "is_double a" and "0 < a" and "1074 \<le> n"
  shows "of_int \<lfloor>a * 10 ^ n\<rfloor> = a * 10 ^ n"
proof -
  let ?q = "qexp a"
  have m: "of_int \<lfloor>a / 2 powi ?q\<rfloor> = a / 2 powi ?q" and q: "-1074 \<le> ?q"
    using assms(1,2) by (auto simp: is_double_def Let_def qexp_def)
  have "a * 10 ^ n = (a / 2 powi ?q) * (2 powi (?q + int n) * 5 ^ n)"
    by (simp add: power_int_add power_mult_distrib [symmetric])
  also have "2 powi (?q + int n) = (2::rat) ^ nat (?q + int n)"
    using q assms(3) by (simp add: power_int_def)
  finally have e: "a * 10 ^ n = (a / 2 powi ?q) * (2 ^ nat (?q + int n) * 5 ^ n)" .
  obtain i where "a / 2 powi ?q = of_int i" using m by metis
  with e have "a * 10 ^ n = of_int (i * 2 ^ nat (?q + int n) * 5 ^ n)" by simp
  then show ?thesis by (metis floor_of_int)
qed

lemma dec_exp_int:
  assumes "is_double a" and "0 < a"
  shows "of_int \<lfloor>a * 10 ^ dec_exp a\<rfloor> = a * 10 ^ dec_exp a"
  unfolding dec_exp_def
proof (rule dec_scale_int)
  show "of_int \<lfloor>a * 10 ^ (0 + 1074)\<rfloor> = a * 10 ^ (0 + 1074)"
    by (rule double_scaled_int [OF assms]) (rule le_add2)
qed

lemma digits_at_ok: "digits_at a N j d = Some (m, e) \<Longrightarrow> round_trips a m e"
  by (auto simp: digits_at_def Let_def split: if_splits)

lemma shortest_from_ok:
  "round_trips a N (- int j) \<Longrightarrow> round_trips a (fst (shortest_from a N j d)) (snd (shortest_from a N j d))"
  by (induction d) (auto dest: digits_at_ok split: option.splits)

lemma repr_digits_ok:
  assumes "is_double a" and "0 < a"
  shows "round_trips a (fst (repr_digits a)) (snd (repr_digits a))"
proof -
  let ?j = "dec_exp a"
  let ?N = "nat \<lfloor>a * 10 ^ ?j\<rfloor>"
  have i: "of_int \<lfloor>a * 10 ^ ?j\<rfloor> = a * 10 ^ ?j" by (rule dec_exp_int [OF assms])
  have "0 \<le> \<lfloor>a * 10 ^ ?j\<rfloor>" using assms(2) by simp
  then have "(of_nat ?N :: rat) = a * 10 ^ ?j" using i by simp
  then have "of_nat ?N * 10 powi (- int ?j) = a"
    by (simp add: power_int_minus)
  then have "round_trips a ?N (- int ?j)"
    using assms(1) by (simp add: round_trips_def round64_double)
  then show ?thesis
    unfolding repr_digits_def Let_def by (rule shortest_from_ok)
qed

section \<open>\<open>float()\<close> reads the written digits\<close>

lemma digit_chars:
  "is_digit c \<Longrightarrow> c \<noteq> CHR ''-'' \<and> c \<noteq> CHR ''+'' \<and> c \<noteq> CHR ''.'' \<and> c \<noteq> CHR ''e'' \<and>
     c \<noteq> CHR ''_'' \<and> \<not> float_space c"
  by (auto simp: is_digit_def float_space_def)

lemma is_digit_0 [simp]: "is_digit (CHR ''0'')"
  by (simp add: is_digit_def)

lemma take_drop_prefix:
  assumes "\<forall>c \<in> set xs. P c" and "ys = [] \<or> \<not> P (hd ys)"
  shows "takeWhile P (xs @ ys) = xs \<and> dropWhile P (xs @ ys) = ys"
  using assms by (cases ys) (simp_all add: takeWhile_append2 dropWhile_append2)

lemma parse_sign_digit: "is_digit c \<Longrightarrow> parse_sign (c # s) = (False, c # s)"
  using digit_chars [of c] by (simp add: parse_sign_def)

lemma digits_val_zeros_prefix: "digits_val (replicate k (CHR ''0'') @ ds) = digits_val ds"
  by (simp add: digits_val_append)

lemma digits_val_zeros_suffix: "digits_val (ds @ replicate k (CHR ''0'')) = digits_val ds * 10 ^ k"
  by (simp add: digits_val_append)

lemma exp_str_parse: "parse_exponent (CHR ''e'' # exp_str x) = Some x"
proof -
  let ?s = "nat_str (nat \<bar>x\<bar>)"
  define s' where "s' = (if length ?s < 2 then CHR ''0'' # ?s else ?s)"
  have d: "\<forall>c \<in> set s'. is_digit c" and v: "digits_val s' = nat \<bar>x\<bar>" and ne: "s' \<noteq> []"
    using nat_str_props [of "nat \<bar>x\<bar>"] digits_val_zeros_prefix [of 1 ?s]
    by (auto simp: s'_def)
  have tw: "takeWhile is_digit s' = s' \<and> dropWhile is_digit s' = []"
    using take_drop_prefix [OF d, of "[]"] by simp
  have sg: "parse_sign ((if x < 0 then CHR ''-'' else CHR ''+'') # s') = (x < 0, s')"
    by (simp add: parse_sign_def)
  have "exp_str x = (if x < 0 then CHR ''-'' else CHR ''+'') # s'"
    by (simp add: exp_str_def s'_def Let_def)
  then show ?thesis
    by (simp add: parse_exponent_def sg tw ne v d)
qed

lemma parse_decimal_dot:
  assumes ip: "ip \<noteq> []" "\<forall>c \<in> set ip. is_digit c" and fp: "\<forall>c \<in> set fp. is_digit c"
    and ex: "parse_exponent ex = Some E" "ex = [] \<or> \<not> is_digit (hd ex)"
  shows "parse_decimal (ip @ CHR ''.'' # fp @ ex) =
           Some (of_nat (digits_val (ip @ fp)) * 10 powi (E - int (length fp)))"
proof -
  obtain c ip' where c: "ip = c # ip'" using ip(1) by (cases ip) auto
  have dot: "\<not> is_digit (CHR ''.'')" by (simp add: is_digit_def)
  have s: "parse_sign (ip @ CHR ''.'' # fp @ ex) = (False, ip @ CHR ''.'' # fp @ ex)"
    using c ip(2) by (simp add: parse_sign_digit)
  have t1: "takeWhile is_digit (ip @ CHR ''.'' # fp @ ex) = ip \<and>
            dropWhile is_digit (ip @ CHR ''.'' # fp @ ex) = CHR ''.'' # fp @ ex"
    using take_drop_prefix [OF ip(2), of "CHR ''.'' # fp @ ex"] dot by simp
  have t2: "takeWhile is_digit (fp @ ex) = fp \<and> dropWhile is_digit (fp @ ex) = ex"
    by (rule take_drop_prefix [OF fp ex(2)])
  show ?thesis
    using s t1 t2 ip(1) ex(1) by (simp add: parse_decimal_def)
qed

lemma parse_decimal_exp:
  assumes ip: "ip \<noteq> []" "\<forall>c \<in> set ip. is_digit c"
    and ex: "parse_exponent (CHR ''e'' # ex) = Some E"
  shows "parse_decimal (ip @ CHR ''e'' # ex) = Some (of_nat (digits_val ip) * 10 powi E)"
proof -
  obtain c ip' where c: "ip = c # ip'" using ip(1) by (cases ip) auto
  have e: "\<not> is_digit (CHR ''e'')" by (simp add: is_digit_def)
  have s: "parse_sign (ip @ CHR ''e'' # ex) = (False, ip @ CHR ''e'' # ex)"
    using c ip(2) by (simp add: parse_sign_digit)
  have t1: "takeWhile is_digit (ip @ CHR ''e'' # ex) = ip \<and>
            dropWhile is_digit (ip @ CHR ''e'' # ex) = CHR ''e'' # ex"
    using take_drop_prefix [OF ip(2), of "CHR ''e'' # ex"] e by simp
  show ?thesis
    using s t1 ip(1) ex by (simp add: parse_decimal_def)
qed

lemma parse_format_short:
  assumes D: "D \<noteq> []" "\<forall>c \<in> set D. is_digit c"
  shows "parse_decimal (format_short D decpt) =
           Some (of_nat (digits_val D) * 10 powi (decpt - int (length D)))"
proof -
  have e0: "parse_exponent [] = Some 0" by (simp add: parse_exponent_def)
  consider (exp) "decpt \<le> -4 \<or> 16 < decpt"
    | (small) "\<not> (decpt \<le> -4 \<or> 16 < decpt)" "decpt \<le> 0"
    | (int) "\<not> (decpt \<le> -4 \<or> 16 < decpt)" "0 < decpt" "int (length D) \<le> decpt"
    | (mid) "\<not> (decpt \<le> -4 \<or> 16 < decpt)" "0 < decpt" "decpt < int (length D)"
    by linarith
  then show ?thesis
  proof cases
    case exp
    obtain c t where ct: "D = c # t" using D(1) by (cases D) auto
    have c: "is_digit c" and t: "\<forall>x \<in> set t. is_digit x" using D(2) ct by auto
    have p: "parse_exponent (CHR ''e'' # exp_str (decpt - 1)) = Some (decpt - 1)"
      by (rule exp_str_parse)
    show ?thesis
    proof (cases "t = []")
      case True
      have "parse_decimal ([c] @ CHR ''e'' # exp_str (decpt - 1)) =
              Some (of_nat (digits_val [c]) * 10 powi (decpt - 1))"
        using c p by (intro parse_decimal_exp) auto
      with exp ct True show ?thesis by (simp add: format_short_def)
    next
      case False
      have "parse_decimal ([c] @ CHR ''.'' # t @ CHR ''e'' # exp_str (decpt - 1)) =
              Some (of_nat (digits_val ([c] @ t)) * 10 powi (decpt - 1 - int (length t)))"
        using c t p by (intro parse_decimal_dot) (auto simp: is_digit_def)
      with exp ct False show ?thesis by (simp add: format_short_def algebra_simps)
    qed
  next
    case small
    let ?z = "replicate (nat (- decpt)) (CHR ''0'')"
    have "parse_decimal (''0'' @ CHR ''.'' # (?z @ D) @ []) =
            Some (of_nat (digits_val (''0'' @ ?z @ D)) * 10 powi (0 - int (length (?z @ D))))"
      using D e0 by (intro parse_decimal_dot) auto
    moreover have "digits_val (''0'' @ ?z @ D) = digits_val D"
      using digits_val_zeros_prefix [of "Suc (nat (- decpt))" D] by simp
    ultimately show ?thesis using small by (simp add: format_short_def)
  next
    case int
    let ?k = "nat decpt - length D"
    let ?z = "replicate ?k (CHR ''0'')"
    have "parse_decimal ((D @ ?z) @ CHR ''.'' # ''0'' @ []) =
            Some (of_nat (digits_val ((D @ ?z) @ ''0'')) * 10 powi (0 - int (length ''0'')))"
      using D e0 by (intro parse_decimal_dot) auto
    moreover have "(D @ ?z) @ ''0'' = D @ replicate (Suc ?k) (CHR ''0'')"
      by (simp add: replicate_append_same)
    then have "digits_val ((D @ ?z) @ ''0'') = digits_val D * 10 ^ Suc ?k"
      by (simp only: digits_val_zeros_suffix)
    moreover have "(10::rat) ^ Suc ?k * 10 powi (0 - int (length ''0'')) = 10 powi (decpt - int (length D))"
      using int by (simp add: power_int_def nat_diff_distrib)
    ultimately show ?thesis using int by (simp add: format_short_def mult.assoc)
  next
    case mid
    let ?p = "nat decpt"
    have ne: "take ?p D \<noteq> []" using mid D(1) by simp
    have "parse_decimal (take ?p D @ CHR ''.'' # drop ?p D @ []) =
            Some (of_nat (digits_val (take ?p D @ drop ?p D)) * 10 powi (0 - int (length (drop ?p D))))"
      using ne D(2) e0 by (intro parse_decimal_dot) (auto dest: in_set_takeD in_set_dropD)
    with mid show ?thesis by (simp add: format_short_def)
  qed
qed

lemma round64_uminus: "round64 d = Fin y \<Longrightarrow> round64 (- d) = Fin (- y)"
  by (cases "d = 0") (auto simp: round64_def Let_def split: if_splits)

lemma exp_str_chars: "\<forall>c \<in> set (exp_str x). is_digit c \<or> c = CHR ''-'' \<or> c = CHR ''+''"
  using nat_str_props [of "nat \<bar>x\<bar>"] by (auto simp: exp_str_def Let_def)

lemma format_short_chars:
  assumes "\<forall>c \<in> set D. is_digit c" and "D \<noteq> []"
  shows "\<forall>c \<in> set (format_short D decpt).
           is_digit c \<or> c = CHR ''.'' \<or> c = CHR ''e'' \<or> c = CHR ''-'' \<or> c = CHR ''+''"
  using assms exp_str_chars [of "decpt - 1"]
  by (auto simp: format_short_def dest: in_set_takeD in_set_dropD list.set_sel(2))

lemma format_short_hd:
  assumes "\<forall>c \<in> set D. is_digit c" and "D \<noteq> []"
  shows "\<exists>c r. format_short D decpt = c # r \<and> is_digit c"
proof -
  obtain c t where ct: "D = c # t" using assms(2) by (cases D) auto
  have "is_digit c" using assms(1) ct by simp
  then show ?thesis
    using ct by (cases "nat decpt") (auto simp: format_short_def)
qed

lemma parse_decimal_minus:
  assumes "parse_sign s = (False, s)"
  shows "parse_decimal (CHR ''-'' # s) = map_option uminus (parse_decimal s)"
  using assms by (auto simp: parse_decimal_def parse_sign_def Let_def split: prod.splits option.splits)

lemma repr_digits_nonzero:
  assumes "is_double a" and "0 < a"
  shows "fst (repr_digits a) \<noteq> 0"
proof
  assume "fst (repr_digits a) = 0"
  with repr_digits_ok [OF assms] have "Fin 0 = Fin a" by (simp add: round_trips_def round64_def)
  with assms(2) show False by simp
qed

lemma strip_zeros_nat_str:
  "(\<forall>c \<in> set (strip_zeros (nat_str m)). is_digit c) \<and>
   (\<exists>z. m = digits_val (strip_zeros (nat_str m)) * 10 ^ z \<and>
        length (nat_str m) = length (strip_zeros (nat_str m)) + z)"
proof -
  let ?D = "strip_zeros (nat_str m)"
  obtain z where z: "nat_str m = ?D @ replicate z (CHR ''0'')"
    using strip_zeros_append by blast
  have s: "\<forall>c \<in> set (nat_str m). is_digit c" and v: "digits_val (nat_str m) = m"
    using nat_str_props [of m] by simp_all
  have "set ?D \<subseteq> set (nat_str m)" by (auto simp: strip_zeros_def dest: set_dropWhileD)
  with s have d: "\<forall>c \<in> set ?D. is_digit c" by blast
  have "digits_val (nat_str m) = digits_val (?D @ replicate z (CHR ''0''))"
    using z by (rule arg_cong)
  with v have "m = digits_val ?D * 10 ^ z" by (simp add: digits_val_zeros_suffix)
  moreover have "length (nat_str m) = length (?D @ replicate z (CHR ''0''))"
    using z by (rule arg_cong)
  ultimately show ?thesis using d by auto
qed

lemma strip_zeros_nat_str_ne: "m \<noteq> 0 \<Longrightarrow> strip_zeros (nat_str m) \<noteq> []"
  using strip_zeros_nat_str [of m] by (auto simp: digits_val_def)

lemma float_of_str_plain:
  assumes "\<forall>c \<in> set s. is_digit c \<or> c = CHR ''.'' \<or> c = CHR ''e'' \<or> c = CHR ''-'' \<or> c = CHR ''+''"
    and "s \<noteq> []" and "parse_decimal s = Some q"
  shows "float_of_str s = Inr (round64 q)"
proof -
  have ok: "c \<noteq> CHR ''_'' \<and> \<not> float_space c" if "c \<in> set s" for c
    using assms(1) that digit_chars [of c] by (auto simp: float_space_def)
  then have u: "remove_underscores s = Some s" by (auto simp: remove_underscores_def)
  have "dropWhile float_space s = s"
    using ok assms(2) by (cases s) auto
  moreover have "dropWhile float_space (rev s) = rev s"
    using ok assms(2) by (cases "rev s") (auto simp: dropWhile_eq_self_iff)
  ultimately have "strip_space s = s" by (simp add: strip_space_def)
  with u assms(2,3) show ?thesis by (simp add: float_of_str_def)
qed

text \<open>
  \<open>float(repr(x)) == x\<close> for every float: the digits written for each value (and
  \<open>inf\<close>, \<open>-inf\<close>, \<open>nan\<close>) read back as exactly the same binary64 value.
\<close>

lemma float_repr_roundtrip:
  assumes "pyfloat_ok v"
  shows "float_of_str (float_repr v) = Inr v"
proof (cases v)
  case NaN
  then show ?thesis by (simp add: float_repr_def float_parse_defs)
next
  case (Inf neg)
  then show ?thesis by (cases neg) (simp_all add: float_repr_def float_parse_defs)
next
  case (Fin x)
  show ?thesis
  proof (cases "x = 0")
    case True
    with Fin show ?thesis by (simp add: float_repr_def float_parse_defs round64_def)
  next
    case False
    define a where "a = \<bar>x\<bar>"
    have a: "is_double a" "0 < a" using assms Fin False by (simp_all add: a_def is_double_def)
    obtain m e where me: "repr_digits a = (m, e)" by fastforce
    have rt: "round64 (of_nat m * 10 powi e) = Fin a"
      using repr_digits_ok [OF a] me by (simp add: round_trips_def)
    define ds where "ds = nat_str m"
    define D where "D = strip_zeros ds"
    obtain z where Dd: "\<forall>c \<in> set D. is_digit c" and mD: "m = digits_val D * 10 ^ z"
        and lz: "length ds = length D + z"
      using strip_zeros_nat_str [of m] unfolding ds_def D_def by blast
    have "m \<noteq> 0" using repr_digits_nonzero [OF a] me by simp
    then have De: "D \<noteq> []" by (simp add: D_def ds_def strip_zeros_nat_str_ne)
    define decpt where "decpt = int (length ds) + e"
    have "decpt - int (length D) = int z + e" using lz by (simp add: decpt_def)
    then have val: "of_nat (digits_val D) * 10 powi (decpt - int (length D)) = (of_nat m * 10 powi e :: rat)"
      using mD by (simp add: power_int_add)
    have p: "parse_decimal (format_short D decpt) = Some (of_nat m * 10 powi e)"
      using parse_format_short [OF De Dd, of decpt] val by simp
    have s: "float_repr (Fin x) = (if x < 0 then ''-'' else []) @ format_short D decpt"
      using False me by (simp add: float_repr_def a_def ds_def D_def decpt_def Let_def)
    have ch: "\<forall>c \<in> set (format_short D decpt).
                is_digit c \<or> c = CHR ''.'' \<or> c = CHR ''e'' \<or> c = CHR ''-'' \<or> c = CHR ''+''"
      by (rule format_short_chars [OF Dd De])
    obtain c0 r0 where h: "format_short D decpt = c0 # r0" "is_digit c0"
      using format_short_hd [OF Dd De] by blast
    show ?thesis
    proof (cases "x < 0")
      case True
      have "parse_decimal (CHR ''-'' # format_short D decpt) = Some (- (of_nat m * 10 powi e))"
        using parse_decimal_minus [of "format_short D decpt"] p h by (simp add: parse_sign_digit)
      moreover have "round64 (- (of_nat m * 10 powi e)) = Fin x"
        using round64_uminus [OF rt] True by (simp add: a_def)
      ultimately show ?thesis
        using float_of_str_plain [of "CHR ''-'' # format_short D decpt"] ch s True Fin by simp
    next
      case False
      with \<open>x \<noteq> 0\<close> have "a = x" by (simp add: a_def)
      then show ?thesis
        using float_of_str_plain [of "format_short D decpt"] ch s False Fin p rt h by simp
    qed
  qed
qed

end
