(* ===== verification/Unit_Normalizer.thy ===== *)
theory Unit_Normalizer
  imports Py_Float
begin

text \<open>
  The unit handling of one record, \<open>src/app.py\<close> lines 186 to 206: five independent
  \<open>if\<close> statements, run in order on the local variables \<open>value\<close>, \<open>unit\<close> and
  \<open>unit_zabbix\<close>. Each statement is one function on the record \<open>conv\<close> of those
  variables, and \<open>normalize_units\<close> runs them in the code's order. The spec's else-if
  formulation (\<open>normalize_spec\<close>) is proved equal to it, the conversion is proved
  idempotent, and its effect on the value and on both unit strings is stated per unit.
\<close>

record conv =
  cv_value :: pyfloat
  cv_unit :: string
  cv_zabbix :: string

definition rule_mA :: "conv \<Rightarrow> conv" where
  "rule_mA c =
     (if cv_unit c = ''mA''
      then c\<lparr>cv_value := fmul (cv_value c) (Fin 1000), cv_unit := ''A'', cv_zabbix := ''A''\<rparr>
      else c)"

definition rule_kWh :: "conv \<Rightarrow> conv" where
  "rule_kWh c = (if cv_unit c = ''kWh'' then c\<lparr>cv_zabbix := ''!kWh''\<rparr> else c)"

definition rule_h :: "conv \<Rightarrow> conv" where
  "rule_h c =
     (if cv_unit c = ''h''
      then c\<lparr>cv_unit := ''s'', cv_zabbix := ''s'', cv_value := fmul (cv_value c) (Fin 3600)\<rparr>
      else c)"

definition backup_ts_descriptor :: string where
  "backup_ts_descriptor = ''SystemState_persistent.Global.LastSystemBackupTimestamp''"

definition sendprot_ts_descriptor :: string where
  "sendprot_ts_descriptor = ''SystemState_persistent.SolarPortal.LastSendProtocolTimestamp''"

definition rule_timestamp :: "string \<Rightarrow> string \<Rightarrow> conv \<Rightarrow> conv" where
  "rule_timestamp name desc c = (if desc = name then c\<lparr>cv_zabbix := ''unixtime''\<rparr> else c)"

text \<open>\<open>unit_zabbix = unit\<close>, then the five statements in order.\<close>

definition normalize_units :: "string \<Rightarrow> string \<Rightarrow> pyfloat \<Rightarrow> conv" where
  "normalize_units desc unit value =
     rule_timestamp sendprot_ts_descriptor desc
       (rule_timestamp backup_ts_descriptor desc
         (rule_h (rule_kWh (rule_mA \<lparr>cv_value = value, cv_unit = unit, cv_zabbix = unit\<rparr>))))"

text \<open>
  The Unit Normalizer of the spec (section 4.1): the three unit rules as an else-if
  chain, unknown units unchanged, then the timestamp override.
\<close>

definition normalize_spec :: "string \<Rightarrow> string \<Rightarrow> pyfloat \<Rightarrow> conv" where
  "normalize_spec desc unit value =
     (let c = (if unit = ''mA'' then \<lparr>cv_value = fmul value (Fin 1000), cv_unit = ''A'', cv_zabbix = ''A''\<rparr>
               else if unit = ''kWh'' then \<lparr>cv_value = value, cv_unit = unit, cv_zabbix = ''!kWh''\<rparr>
               else if unit = ''h'' then \<lparr>cv_value = fmul value (Fin 3600), cv_unit = ''s'', cv_zabbix = ''s''\<rparr>
               else \<lparr>cv_value = value, cv_unit = unit, cv_zabbix = unit\<rparr>)
      in if desc \<in> {backup_ts_descriptor, sendprot_ts_descriptor}
         then c\<lparr>cv_zabbix := ''unixtime''\<rparr> else c)"

lemmas unit_rule_defs = rule_mA_def rule_kWh_def rule_h_def rule_timestamp_def

lemma ts_descriptors_differ: "backup_ts_descriptor \<noteq> sendprot_ts_descriptor"
  by (simp add: backup_ts_descriptor_def sendprot_ts_descriptor_def)

text \<open>The unit rules, before the timestamp override.\<close>

lemma unit_rules_eq:
  "rule_h (rule_kWh (rule_mA \<lparr>cv_value = v, cv_unit = u, cv_zabbix = u\<rparr>)) =
     (if u = ''mA'' then \<lparr>cv_value = fmul v (Fin 1000), cv_unit = ''A'', cv_zabbix = ''A''\<rparr>
      else if u = ''kWh'' then \<lparr>cv_value = v, cv_unit = u, cv_zabbix = ''!kWh''\<rparr>
      else if u = ''h'' then \<lparr>cv_value = fmul v (Fin 3600), cv_unit = ''s'', cv_zabbix = ''s''\<rparr>
      else \<lparr>cv_value = v, cv_unit = u, cv_zabbix = u\<rparr>)"
  by (simp add: unit_rule_defs)

lemma rule_timestamps_eq:
  "rule_timestamp sendprot_ts_descriptor d (rule_timestamp backup_ts_descriptor d c) =
     (if d \<in> {backup_ts_descriptor, sendprot_ts_descriptor} then c\<lparr>cv_zabbix := ''unixtime''\<rparr>
      else c)"
  by (auto simp: rule_timestamp_def)

lemma normalize_units_eq:
  "normalize_units d u v =
     (let c = (if u = ''mA'' then \<lparr>cv_value = fmul v (Fin 1000), cv_unit = ''A'', cv_zabbix = ''A''\<rparr>
               else if u = ''kWh'' then \<lparr>cv_value = v, cv_unit = u, cv_zabbix = ''!kWh''\<rparr>
               else if u = ''h'' then \<lparr>cv_value = fmul v (Fin 3600), cv_unit = ''s'', cv_zabbix = ''s''\<rparr>
               else \<lparr>cv_value = v, cv_unit = u, cv_zabbix = u\<rparr>)
      in if d \<in> {backup_ts_descriptor, sendprot_ts_descriptor}
         then c\<lparr>cv_zabbix := ''unixtime''\<rparr> else c)"
  by (simp only: normalize_units_def unit_rules_eq rule_timestamps_eq Let_def)

text \<open>
  C1: the code's sequence of five independent \<open>if\<close> statements computes the spec's
  Unit Normalizer (an else-if chain over the unit, then the timestamp override), for
  every descriptor, unit and value.
\<close>

theorem normalize_units_spec: "normalize_units d u v = normalize_spec d u v"
  by (simp only: normalize_units_eq normalize_spec_def)

text \<open>
  C19: the conversion is idempotent: converting its result a second time, with the same
  descriptor, changes neither the value nor the units.
\<close>

theorem normalize_units_idem:
  "normalize_units d (cv_unit (normalize_units d u v)) (cv_value (normalize_units d u v)) =
     normalize_units d u v"
  by (simp add: normalize_units_eq Let_def)

text \<open>
  C16: the value is multiplied by 1000 for \<open>mA\<close> (so a milliampere reading becomes a
  thousand times larger although the unit becomes \<open>A\<close>) and by 3600 for \<open>h\<close>; every
  other unit keeps the value.
\<close>

theorem normalize_units_value:
  "cv_value (normalize_units d u v) =
     (if u = ''mA'' then fmul v (Fin 1000) else if u = ''h'' then fmul v (Fin 3600) else v)"
  by (simp add: normalize_units_eq Let_def)

text \<open>
  C18: the published unit is \<open>A\<close> for \<open>mA\<close>, \<open>s\<close> for \<open>h\<close>, and the device's unit
  otherwise; the descriptor never changes it.
\<close>

theorem normalize_units_unit:
  "cv_unit (normalize_units d u v) = (if u = ''mA'' then ''A'' else if u = ''h'' then ''s'' else u)"
  by (simp add: normalize_units_eq Let_def)

text \<open>
  C17: the monitoring unit is \<open>unixtime\<close> for the two timestamp descriptors whatever
  the unit, otherwise \<open>A\<close>, \<open>!kWh\<close>, \<open>s\<close> or the unit itself.
\<close>

theorem normalize_units_zabbix:
  "cv_zabbix (normalize_units d u v) =
     (if d \<in> {backup_ts_descriptor, sendprot_ts_descriptor} then ''unixtime''
      else if u = ''mA'' then ''A'' else if u = ''kWh'' then ''!kWh''
      else if u = ''h'' then ''s'' else u)"
  by (simp add: normalize_units_eq Let_def)

lemma normalize_units_ok: "pyfloat_ok v \<Longrightarrow> pyfloat_ok (cv_value (normalize_units d u v))"
  by (simp add: normalize_units_eq Let_def fmul_ok)

end
