(* ===== verification/Record_Parser.thy ===== *)
theory Record_Parser
  imports Unit_Normalizer
begin

text \<open>
  The record parser, \<open>src/app.py\<close> lines 172 to 211 (inside \<open>do_repeat\<close>, after a
  \<open>200\<close> response): the body is cut into lines, each line into fields at \<open>;\<close>, the
  value is scaled by the multiplier, the units are normalised, the description loses
  its quotes, and one dictionary per line is appended to \<open>allmetrics\<close>. An exception
  in any line (a missing field, a value that is no float) leaves the loop and the whole
  call. \<open>process_line\<close> is the loop body, \<open>parse_lines\<close> the loop with its counter
  \<open>linecnt\<close> and its accumulator, \<open>parse_body\<close> the loop over \<open>res.text.splitlines()\<close>.
\<close>

record metric =
  metric_id :: string
  metric_descriptor :: string
  metric_type :: string
  metric_value :: pyfloat
  metric_description :: string
  metric_unit :: string
  metric_unit_zabbix :: string

text \<open>Lines 179 to 184: the multiplication is skipped for the literal multiplier \<open>1.000000\<close>.\<close>

definition scale_value :: "string \<Rightarrow> string \<Rightarrow> pyfloat result" where
  "scale_value rawvalue multiplier =
     (if multiplier \<noteq> ''1.000000''
      then rbind (float_of_str rawvalue) (\<lambda>r. rbind (float_of_str multiplier) (\<lambda>m. Inr (fmul r m)))
      else float_of_str rawvalue)"

text \<open>
  Lines 176 to 209, with the field accesses in the order the code makes them: \<open>v[3]\<close>,
  \<open>v[5]\<close>, the conversion, \<open>v[6]\<close>, \<open>v[1]\<close> (the descriptor tests), then \<open>v[0]\<close>,
  \<open>v[2]\<close>, \<open>v[4]\<close> for the dictionary.
\<close>

definition process_line :: "string \<Rightarrow> metric result" where
  "process_line line =
     (let v = split_on (CHR '';'') line in
      rbind (py_index v 3) (\<lambda>rawvalue.
      rbind (py_index v 5) (\<lambda>multiplier.
      rbind (scale_value rawvalue multiplier) (\<lambda>value.
      rbind (py_index v 6) (\<lambda>unit.
      rbind (py_index v 1) (\<lambda>desc.
      let c = normalize_units desc unit value in
      rbind (py_index v 0) (\<lambda>ident.
      rbind (py_index v 2) (\<lambda>typ.
      rbind (py_index v 4) (\<lambda>descr.
      Inr \<lparr>metric_id = ident, metric_descriptor = desc, metric_type = typ,
           metric_value = cv_value c, metric_description = strip_chars ''\"'' descr,
           metric_unit = cv_unit c, metric_unit_zabbix = cv_zabbix c\<rparr>)))))))))"

text \<open>The \<open>for\<close> loop: \<open>linecnt += 1\<close>, the body, \<open>allmetrics.append(metric)\<close>.\<close>

fun parse_lines :: "string list \<Rightarrow> metric list \<Rightarrow> nat \<Rightarrow> (metric list \<times> nat) result" where
  "parse_lines [] allmetrics linecnt = Inr (allmetrics, linecnt)"
| "parse_lines (line # lines) allmetrics linecnt =
     rbind (process_line line) (\<lambda>m. parse_lines lines (allmetrics @ [m]) (Suc linecnt))"

definition parse_body :: "string \<Rightarrow> (metric list \<times> nat) result" where
  "parse_body text = parse_lines (splitlines text) [] 0"

section \<open>The rows the spec describes\<close>

text \<open>
  What a row of the device's table means according to the spec (sections 3 and 4.2):
  the metric built from the fields, with \<open>value = float(rawValue) * float(multiplier)\<close>
  and the units of the spec's normaliser. A row is well formed when it has at least the
  seven fields the code reads and no field holds the separator.
\<close>

definition spec_metric :: "string list \<Rightarrow> pyfloat \<Rightarrow> metric" where
  "spec_metric vs value =
     (let c = normalize_spec (vs ! 1) (vs ! 6) value
      in \<lparr>metric_id = vs ! 0, metric_descriptor = vs ! 1, metric_type = vs ! 2,
          metric_value = cv_value c, metric_description = strip_chars ''\"'' (vs ! 4),
          metric_unit = cv_unit c, metric_unit_zabbix = cv_zabbix c\<rparr>)"

definition spec_row :: "string list \<Rightarrow> metric result" where
  "spec_row vs =
     rbind (float_of_str (vs ! 3)) (\<lambda>r. rbind (float_of_str (vs ! 5)) (\<lambda>m.
       Inr (spec_metric vs (fmul r m))))"

definition wf_fields :: "string list \<Rightarrow> bool" where
  "wf_fields vs \<longleftrightarrow> 7 \<le> length vs \<and> (\<forall>v \<in> set vs. CHR '';'' \<notin> set v)"

section \<open>The loop is a map over the lines\<close>

lemma parse_lines_map_result:
  "parse_lines ls acc n =
     rbind (map_result process_line ls) (\<lambda>ms. Inr (acc @ ms, n + length ls))"
  by (induction ls arbitrary: acc n) (auto simp: rbind_def split: sum.splits)

lemma parse_body_eq:
  "parse_body t =
     rbind (map_result process_line (splitlines t)) (\<lambda>ms. Inr (ms, length (splitlines t)))"
  by (simp add: parse_body_def parse_lines_map_result)

section \<open>The multiplier and well-formed rows\<close>

lemma float_of_str_one: "float_of_str ''1.000000'' = Inr (Fin 1)"
  by (simp add: float_parse_defs round64_double)

text \<open>
  Skipping the multiplication for \<open>1.000000\<close> changes nothing: in every case the
  value is \<open>float(rawvalue) * float(multiplier)\<close>, errors included.
\<close>

lemma scale_value_eq_product:
  "scale_value r m = rbind (float_of_str r) (\<lambda>x. rbind (float_of_str m) (\<lambda>y. Inr (fmul x y)))"
proof (cases "m = ''1.000000''")
  case True
  show ?thesis
  proof (cases "float_of_str r")
    case (Inr x)
    then have "pyfloat_ok x" by (rule float_of_str_ok)
    with Inr True show ?thesis
      by (simp add: scale_value_def float_of_str_one fmul_one_right)
  qed (simp add: scale_value_def True)
next
  case False
  then show ?thesis by (simp add: scale_value_def)
qed

lemma process_line_fields:
  assumes "wf_fields vs"
  shows "process_line (py_join (CHR '';'') vs) = spec_row vs"
proof -
  have len: "7 \<le> length vs" and free: "\<forall>v \<in> set vs. CHR '';'' \<notin> set v"
    using assms by (auto simp: wf_fields_def)
  then have ne: "vs \<noteq> []" by auto
  with free have split: "split_on (CHR '';'') (py_join (CHR '';'') vs) = vs"
    by (rule split_on_py_join [rotated])
  have ix: "py_index vs 0 = Inr (vs ! 0)" "py_index vs (Suc 0) = Inr (vs ! Suc 0)"
    "py_index vs 2 = Inr (vs ! 2)" "py_index vs 3 = Inr (vs ! 3)" "py_index vs 4 = Inr (vs ! 4)"
    "py_index vs 5 = Inr (vs ! 5)" "py_index vs 6 = Inr (vs ! 6)"
    using len ne by simp_all
  show ?thesis
  proof (cases "float_of_str (vs ! 3)")
    case r: (Inr r)
    show ?thesis
    proof (cases "float_of_str (vs ! 5)")
      case (Inr m)
      with r show ?thesis
        by (simp add: process_line_def split ix spec_row_def spec_metric_def
            scale_value_eq_product normalize_units_eq normalize_spec_def Let_def)
    qed (simp add: process_line_def split ix spec_row_def scale_value_eq_product r)
  qed (simp add: process_line_def split ix spec_row_def scale_value_eq_product)
qed

lemma parse_body_rows_lines:
  assumes "\<forall>vs \<in> set rows. \<forall>v \<in> set vs. no_breaks v"
  shows "splitlines (concat (map (\<lambda>vs. py_join (CHR '';'') vs @ [LF]) rows)) =
           map (py_join (CHR '';'')) rows"
proof -
  have "\<forall>l \<in> set (map (py_join (CHR '';'')) rows). no_breaks l"
    using assms by (auto intro: no_breaks_py_join)
  moreover have "line_terminator [LF]" by (simp add: line_terminator_def)
  ultimately have "splitlines (concat (map (\<lambda>l. l @ [LF]) (map (py_join (CHR '';'')) rows))) =
                     map (py_join (CHR '';'')) rows"
    by (rule splitlines_roundtrip)
  then show ?thesis by (simp add: comp_def)
qed

text \<open>
  C2: parsing a table of well-formed rows, each ended by a line feed, gives one metric
  per row, in order, each the spec's metric of its row; the first row whose value or
  multiplier is no float makes the whole call raise.
\<close>

theorem parse_body_rows:
  assumes "\<forall>vs \<in> set rows. wf_fields vs \<and> (\<forall>v \<in> set vs. no_breaks v)"
  shows "parse_body (concat (map (\<lambda>vs. py_join (CHR '';'') vs @ [LF]) rows)) =
           rbind (map_result spec_row rows) (\<lambda>ms. Inr (ms, length rows))"
proof -
  have "map_result process_line (map (py_join (CHR '';'')) rows) = map_result spec_row rows"
    unfolding map_result_map using assms by (intro map_result_cong) (simp add: process_line_fields)
  with assms show ?thesis
    by (simp add: parse_body_eq parse_body_rows_lines)
qed

text \<open>
  C15: when the body is parsed, the line count the code logs is the number of lines of
  the body, there is one metric per line, and the i-th metric is that of the i-th line.
\<close>

theorem parse_body_count:
  assumes "parse_body t = Inr (ms, n)"
  shows "n = length (splitlines t) \<and> length ms = n \<and>
         (\<forall>i < n. process_line (splitlines t ! i) = Inr (ms ! i))"
proof -
  from assms obtain ms' where m: "map_result process_line (splitlines t) = Inr ms'"
      and eq: "ms = ms'" "n = length (splitlines t)"
    by (auto simp: parse_body_eq rbind_eq_Inr_iff)
  from m have "length ms' = length (splitlines t)" by (rule map_result_Inr_length)
  moreover have "\<forall>i < n. process_line (splitlines t ! i) = Inr (ms' ! i)"
    using m eq map_result_Inr_nth by blast
  ultimately show ?thesis using eq by simp
qed

text \<open>
  C7: the body raises exactly the exception of its first line that raises: no metric of
  a batch survives a bad line.
\<close>

theorem parse_body_error:
  "parse_body t = Inl e \<longleftrightarrow>
     (\<exists>i < length (splitlines t). process_line (splitlines t ! i) = Inl e \<and>
        (\<forall>j < i. \<exists>m. process_line (splitlines t ! j) = Inr m))"
proof -
  have "parse_body t = Inl e \<longleftrightarrow> map_result process_line (splitlines t) = Inl e"
    by (simp add: parse_body_eq rbind_def split: sum.splits)
  then show ?thesis by (simp add: map_result_Inl_first)
qed

lemma process_line_empty: "process_line [] = Inl IndexError"
  by (simp add: process_line_def split_on_def)

text \<open>
  C8: a body with an empty line (for instance a blank line between rows) raises: the
  code does not skip empty lines, \<open>v[3]\<close> raises \<open>IndexError\<close>.
\<close>

theorem parse_body_empty_line:
  assumes "[] \<in> set (splitlines t)"
  shows "\<exists>e. parse_body t = Inl e"
proof (rule ccontr)
  assume "\<nexists>e. parse_body t = Inl e"
  then obtain ms n where "parse_body t = Inr (ms, n)"
    by (cases "parse_body t") auto
  then have "\<forall>i < length (splitlines t). \<exists>m. process_line (splitlines t ! i) = Inr m"
    by (auto simp: parse_body_eq rbind_eq_Inr_iff dest: map_result_Inr_nth)
  with assms show False
    by (auto simp: in_set_conv_nth process_line_empty)
qed

section \<open>Every value is a binary64 value\<close>

lemma scale_value_ok: "scale_value r m = Inr v \<Longrightarrow> pyfloat_ok v"
  by (auto simp: scale_value_eq_product rbind_eq_Inr_iff fmul_ok)

lemma process_line_ok: "process_line l = Inr m \<Longrightarrow> pyfloat_ok (metric_value m)"
  by (auto simp: process_line_def Let_def rbind_eq_Inr_iff normalize_units_ok
      dest: scale_value_ok)

section \<open>Separators inside a quoted description\<close>

text \<open>
  C20: the code splits at every \<open>;\<close>, also inside the quoted description (the
  imported \<open>csv\<close> module is not used): a description field whose text holds
  separators is read as that many more fields. The line is processed as the row with
  the pieces of the description in its place: the piece after the first separator is
  taken as the multiplier and the next field as the unit. The line raises
  \<open>ValueError\<close> when that piece is no float (and the whole batch fails), and
  otherwise yields a metric with a wrong value, unit and description.
\<close>

theorem quoted_separator_shifts:
  assumes "wf_fields (f @ ds @ g)" and "length f = 4" and "ds \<noteq> []"
  shows "process_line (py_join (CHR '';'') (f @ py_join (CHR '';'') ds # g)) = spec_row (f @ ds @ g)"
proof -
  have "f \<noteq> []" using assms(2) by auto
  then have "py_join (CHR '';'') (f @ py_join (CHR '';'') ds # g) = py_join (CHR '';'') (f @ ds @ g)"
    using assms(3) by (rule py_join_nested)
  then show ?thesis using process_line_fields [OF assms(1)] by simp
qed

section \<open>Line endings and quotes\<close>

text \<open>
  C22: the line endings of the body do not matter: a table whose lines all end in
  \<open>\r\n\<close>, in \<open>\r\<close> or in any other single line boundary parses exactly as
  the same table with line feeds, metrics, errors and line count alike.
\<close>

theorem parse_body_line_endings:
  assumes "\<forall>l \<in> set ls. no_breaks l" and "line_terminator t"
  shows "parse_body (concat (map (\<lambda>l. l @ t) ls)) = parse_body (concat (map (\<lambda>l. l @ [LF]) ls))"
proof -
  have "line_terminator [LF]" by (simp add: line_terminator_def)
  with assms show ?thesis
    by (simp add: parse_body_def splitlines_roundtrip)
qed


section \<open>Examples\<close>

lemma float_of_str_two: "float_of_str ''2'' = Inr (Fin 2)"
  by (simp add: float_parse_defs round64_double)

lemma process_line_example:
  "process_line ''1;D;F;2;x;1.000000;Hz'' =
     Inr \<lparr>metric_id = ''1'', metric_descriptor = ''D'', metric_type = ''F'',
          metric_value = Fin 2, metric_description = ''x'', metric_unit = ''Hz'',
          metric_unit_zabbix = ''Hz''\<rparr>"
  by (simp add: process_line_def split_on_def scale_value_def float_of_str_two
      normalize_units_eq strip_chars_def backup_ts_descriptor_def sendprot_ts_descriptor_def)

lemma parse_body_example:
  "parse_body (''1;D;F;2;x;1.000000;Hz'' @ [LF]) =
     Inr ([\<lparr>metric_id = ''1'', metric_descriptor = ''D'', metric_type = ''F'',
            metric_value = Fin 2, metric_description = ''x'', metric_unit = ''Hz'',
            metric_unit_zabbix = ''Hz''\<rparr>], 1)"
proof -
  have "splitlines (''1;D;F;2;x;1.000000;Hz'' @ [LF]) = [''1;D;F;2;x;1.000000;Hz'']"
    by (simp add: splitlines_def is_line_break_def)
  then show ?thesis by (simp add: parse_body_eq process_line_example)
qed

theorem parse_body_rows_witness:
  "parse_body (''1;D;F;2;x;1.000000;Hz'' @ [LF]) =
     Inr ([\<lparr>metric_id = ''1'', metric_descriptor = ''D'', metric_type = ''F'',
            metric_value = Fin 2, metric_description = ''x'', metric_unit = ''Hz'',
            metric_unit_zabbix = ''Hz''\<rparr>], 1)"
  using parse_body_rows [of "[[''1'', ''D'', ''F'', ''2'', ''x'', ''1.000000'', ''Hz'']]"]
  by (simp add: wf_fields_def no_breaks_def is_line_break_def spec_row_def spec_metric_def
      float_of_str_two float_of_str_one normalize_spec_def strip_chars_def
      backup_ts_descriptor_def sendprot_ts_descriptor_def round64_double)

theorem parse_body_count_witness:
  "process_line (splitlines (''1;D;F;2;x;1.000000;Hz'' @ [LF]) ! 0) =
     Inr \<lparr>metric_id = ''1'', metric_descriptor = ''D'', metric_type = ''F'',
          metric_value = Fin 2, metric_description = ''x'', metric_unit = ''Hz'',
          metric_unit_zabbix = ''Hz''\<rparr>"
  using parse_body_count [OF parse_body_example] by simp

theorem parse_body_error_witness:
  "parse_body (''1;D;F;2;x;1.000000;Hz'' @ [LF] @ ''7;D'') = Inl IndexError"
proof -
  let ?t = "''1;D;F;2;x;1.000000;Hz'' @ [LF] @ ''7;D''"
  have l: "splitlines ?t = [''1;D;F;2;x;1.000000;Hz'', ''7;D'']"
    by (simp add: splitlines_def is_line_break_def)
  have p: "process_line ''7;D'' = Inl IndexError"
    by (simp add: process_line_def split_on_def)
  have "\<exists>i < length (splitlines ?t). process_line (splitlines ?t ! i) = Inl IndexError \<and>
          (\<forall>j < i. \<exists>m. process_line (splitlines ?t ! j) = Inr m)"
    unfolding l by (intro exI [of _ 1]) (simp add: p process_line_example less_Suc_eq)
  then show ?thesis by (simp only: parse_body_error)
qed

theorem parse_body_empty_line_witness:
  "\<exists>e. parse_body (''1;D;F;2;x;1.000000;Hz'' @ [LF, LF] @ ''1;D;F;2;x;1.000000;Hz'') = Inl e"
  by (rule parse_body_empty_line) (simp add: splitlines_def is_line_break_def)


theorem quoted_separator_shifts_witness:
  "process_line ''1;D;F;2;\"a;3;b\";1.000000;Hz'' =
     spec_row [''1'', ''D'', ''F'', ''2'', ''\"a'', ''3'', ''b\"'', ''1.000000'', ''Hz'']"
  using quoted_separator_shifts [of "[''1'', ''D'', ''F'', ''2'']" "[''\"a'', ''3'', ''b\"'']" "[''1.000000'', ''Hz'']"]
  by (simp add: wf_fields_def)

theorem parse_body_line_endings_witness:
  "parse_body (''1;D;F;2;x;1.000000;Hz'' @ [CR, LF]) = parse_body (''1;D;F;2;x;1.000000;Hz'' @ [LF])"
  using parse_body_line_endings [of "[''1;D;F;2;x;1.000000;Hz'']" "[CR, LF]"]
  by (simp add: no_breaks_def is_line_break_def line_terminator_def)


end
