(* ===== verification/Json_Payload.thy ===== *)
theory Json_Payload
  imports Py_Repr Record_Parser
begin

text \<open>
  The payload the worker publishes, \<open>json.dumps(allmetrics)\<close> (\<open>src/app.py\<close> line
  215) with the default arguments: \<open>ensure_ascii\<close>, \<open>allow_nan\<close>, separators
  \<open>', '\<close> and \<open>': '\<close>, keys in insertion order. The encoder of CPython's \<open>_json\<close>
  module writes a list as \<open>[a, b]\<close>, a dictionary as \<open>{"k": v}\<close>, a string between
  quotes with \<open>\\\<close>, \<open>"\<close> and the control characters \<open>\b \f \n \r \t\<close> escaped by a
  backslash and every other character outside \<open>' '..'~'\<close> as \<open>\uXXXX\<close> (lower-case
  hexadecimal), and a float as \<open>repr\<close> does, with \<open>NaN\<close>, \<open>Infinity\<close> and
  \<open>-Infinity\<close> for the values JSON lacks. The theory also holds the decoder of an
  escaped string (\<open>json.decoder.py_scanstring\<close>) to state the round trip.
\<close>

section \<open>JSON values and their text\<close>

datatype json =
    JObject "(string \<times> json) list"
  | JArray "json list"
  | JString string
  | JFloat pyfloat

definition backslash :: char where "backslash = CHR 0x5C"
definition dquote :: char where "dquote = CHR 0x22"

definition hex_digit :: "nat \<Rightarrow> char" where
  "hex_digit d = ''0123456789abcdef'' ! d"

text \<open>\<open>ascii_escape_unichar\<close> and \<open>S_CHAR\<close> of \<open>_json.c\<close>, for one character.\<close>

definition json_escape_char :: "char \<Rightarrow> string" where
  "json_escape_char c =
     (let n = (of_char c :: nat) in
      if c = backslash then [backslash, backslash]
      else if c = dquote then [backslash, dquote]
      else if c = CHR 0x08 then [backslash, CHR ''b'']
      else if c = CHR 0x0C then [backslash, CHR ''f'']
      else if c = CHR 0x0A then [backslash, CHR ''n'']
      else if c = CHR 0x0D then [backslash, CHR ''r'']
      else if c = CHR 0x09 then [backslash, CHR ''t'']
      else if 32 \<le> n \<and> n \<le> 126 then [c]
      else [backslash, CHR ''u'', hex_digit (n div 4096 mod 16), hex_digit (n div 256 mod 16),
            hex_digit (n div 16 mod 16), hex_digit (n mod 16)])"

definition json_string :: "string \<Rightarrow> string" where
  "json_string s = dquote # concat (map json_escape_char s) @ [dquote]"

text \<open>\<open>floatstr\<close> of the encoder.\<close>

definition json_float :: "pyfloat \<Rightarrow> string" where
  "json_float v =
     (case v of
        NaN \<Rightarrow> ''NaN''
      | Inf neg \<Rightarrow> (if neg then ''-Infinity'' else ''Infinity'')
      | Fin x \<Rightarrow> float_repr (Fin x))"

fun sep_join :: "string \<Rightarrow> string list \<Rightarrow> string" where
  "sep_join sep [] = []"
| "sep_join sep [w] = w"
| "sep_join sep (w # ws) = w @ sep @ sep_join sep ws"

fun json_dumps :: "json \<Rightarrow> string" where
  "json_dumps (JString s) = json_string s"
| "json_dumps (JFloat v) = json_float v"
| "json_dumps (JArray xs) = CHR ''['' # sep_join '', '' (map json_dumps xs) @ '']''"
| "json_dumps (JObject kvs) =
     CHR ''{'' # sep_join '', '' (map (\<lambda>kv. json_string (fst kv) @ '': '' @ json_dumps (snd kv)) kvs) @ ''}''"

text \<open>The dictionary of line 208, with its keys in the order the literal has them.\<close>

definition metric_json :: "metric \<Rightarrow> json" where
  "metric_json m =
     JObject [(''id'', JString (metric_id m)), (''descriptor'', JString (metric_descriptor m)),
              (''type'', JString (metric_type m)), (''value'', JFloat (metric_value m)),
              (''description'', JString (metric_description m)), (''unit'', JString (metric_unit m)),
              (''unit_zabbix'', JString (metric_unit_zabbix m))]"

definition metrics_payload :: "metric list \<Rightarrow> string" where
  "metrics_payload ms = json_dumps (JArray (map metric_json ms))"

text \<open>The characters \<open>ensure_ascii\<close> lets through unescaped: \<open>' '\<close> to \<open>'~'\<close>.\<close>

definition printable :: "char \<Rightarrow> bool" where
  "printable c \<longleftrightarrow> 32 \<le> (of_char c :: nat) \<and> (of_char c :: nat) \<le> 126"

text \<open>A JSON value whose numbers are all binary64 values.\<close>

fun json_ok :: "json \<Rightarrow> bool" where
  "json_ok (JString s) = True"
| "json_ok (JFloat v) = pyfloat_ok v"
| "json_ok (JArray xs) = (\<forall>x \<in> set xs. json_ok x)"
| "json_ok (JObject kvs) = (\<forall>kv \<in> set kvs. json_ok (snd kv))"

section \<open>Reading an escaped string back\<close>

definition hex_val :: "char \<Rightarrow> nat option" where
  "hex_val c =
     (let n = (of_char c :: nat) in
      if 48 \<le> n \<and> n \<le> 57 then Some (n - 48)
      else if 97 \<le> n \<and> n \<le> 102 then Some (n - 87)
      else if 65 \<le> n \<and> n \<le> 70 then Some (n - 55) else None)"

text \<open>
  \<open>py_scanstring\<close> (strict mode) after an opening quote: characters up to the
  closing quote, a backslash escaping one of \<open>" \ / b f n r t\<close> or starting
  \<open>uXXXX\<close>, and no raw control character; the result is the text and what follows
  the closing quote. The model's characters stop at U+00FF, so a larger code is
  rejected like a malformed escape.
\<close>

fun scan_string :: "string \<Rightarrow> (string \<times> string) option" where
  "scan_string [] = None"
| "scan_string (c # s) =
     (if c = dquote then Some ([], s)
      else if c \<noteq> backslash then
        (if (of_char c :: nat) < 32 then None else map_option (apfst (Cons c)) (scan_string s))
      else case s of
        [] \<Rightarrow> None
      | d # s' \<Rightarrow>
          if d = dquote \<or> d = backslash \<or> d = CHR ''/'' then map_option (apfst (Cons d)) (scan_string s')
          else if d = CHR ''b'' then map_option (apfst (Cons (CHR 0x08))) (scan_string s')
          else if d = CHR ''f'' then map_option (apfst (Cons (CHR 0x0C))) (scan_string s')
          else if d = CHR ''n'' then map_option (apfst (Cons (CHR 0x0A))) (scan_string s')
          else if d = CHR ''r'' then map_option (apfst (Cons (CHR 0x0D))) (scan_string s')
          else if d = CHR ''t'' then map_option (apfst (Cons (CHR 0x09))) (scan_string s')
          else if d = CHR ''u'' then
            (case s' of
               h1 # h2 # h3 # h4 # rest \<Rightarrow>
                 (case (hex_val h1, hex_val h2, hex_val h3, hex_val h4) of
                    (Some a, Some b, Some c', Some d') \<Rightarrow>
                      let n = ((a * 16 + b) * 16 + c') * 16 + d'
                      in if n < 256 then map_option (apfst (Cons (char_of n))) (scan_string rest) else None
                  | _ \<Rightarrow> None)
             | _ \<Rightarrow> None)
          else None)"

section \<open>The escapes read back\<close>

lemma hex_digit_val: "d < 16 \<Longrightarrow> hex_val (hex_digit d) = Some d"
proof -
  assume "d < 16"
  then have "d = 0 \<or> d = 1 \<or> d = 2 \<or> d = 3 \<or> d = 4 \<or> d = 5 \<or> d = 6 \<or> d = 7 \<or> d = 8 \<or>
             d = 9 \<or> d = 10 \<or> d = 11 \<or> d = 12 \<or> d = 13 \<or> d = 14 \<or> d = 15" by arith
  then show ?thesis by (elim disjE) (simp_all add: hex_val_def hex_digit_def)
qed

lemma scan_string_escape_char:
  "scan_string (json_escape_char c @ rest) = map_option (apfst (Cons c)) (scan_string rest)"
proof -
  let ?n = "of_char c :: nat"
  consider (named) "c \<in> {backslash, dquote, CHR 0x08, CHR 0x0C, CHR 0x0A, CHR 0x0D, CHR 0x09}"
    | (plain) "c \<notin> {backslash, dquote, CHR 0x08, CHR 0x0C, CHR 0x0A, CHR 0x0D, CHR 0x09}"
        "32 \<le> ?n \<and> ?n \<le> 126"
    | (uni) "c \<notin> {backslash, dquote, CHR 0x08, CHR 0x0C, CHR 0x0A, CHR 0x0D, CHR 0x09}"
        "\<not> (32 \<le> ?n \<and> ?n \<le> 126)"
    by blast
  then show ?thesis
  proof cases
    case named
    then show ?thesis by (auto simp: json_escape_char_def backslash_def dquote_def)
  next
    case plain
    then show ?thesis by (auto simp: json_escape_char_def Let_def)
  next
    case uni
    have lt: "?n < 256" by (rule nat_of_char_less_256)
    have h: "hex_val (hex_digit (?n div 4096 mod 16)) = Some 0"
        "hex_val (hex_digit (?n div 256 mod 16)) = Some 0"
        "hex_val (hex_digit (?n div 16 mod 16)) = Some (?n div 16 mod 16)"
        "hex_val (hex_digit (?n mod 16)) = Some (?n mod 16)"
    proof -
      have "?n < 4096" using lt by linarith
      then have z: "?n div 4096 = 0" "?n div 256 = 0" using lt by (simp_all only: div_less)
      show "hex_val (hex_digit (?n div 4096 mod 16)) = Some 0"
          "hex_val (hex_digit (?n div 256 mod 16)) = Some 0"
        unfolding z using hex_digit_val [of 0] by simp_all
      show "hex_val (hex_digit (?n div 16 mod 16)) = Some (?n div 16 mod 16)"
          "hex_val (hex_digit (?n mod 16)) = Some (?n mod 16)"
        by (simp_all add: hex_digit_val)
    qed
    have "?n < 16 * 16" using lt by linarith
    then have "?n div 16 < 16" by (metis div_less_iff_less_mult zero_less_numeral)
    then have "?n div 16 mod 16 = ?n div 16" by (rule mod_less)
    then have "((0 * 16 + 0) * 16 + ?n div 16 mod 16) * 16 + ?n mod 16 = ?n" by simp
    with uni h lt show ?thesis
      by (auto simp: json_escape_char_def Let_def backslash_def dquote_def)
  qed
qed

text \<open>
  The scanner reads back every encoded string, whatever characters it holds, and stops
  right after its closing quote.
\<close>

lemma scan_string_json:
  "scan_string (concat (map json_escape_char s) @ dquote # rest) = Some (s, rest)"
  by (induction s) (simp_all add: scan_string_escape_char)

section \<open>The payload is printable ASCII\<close>

lemma printable_digit: "is_digit c \<Longrightarrow> printable c"
  by (simp add: is_digit_def printable_def)

lemma printable_escape: "\<forall>c \<in> set (json_escape_char x). printable c"
proof -
  have hex: "printable (hex_digit d)" if "d < 16" for d
  proof -
    from that have "d = 0 \<or> d = 1 \<or> d = 2 \<or> d = 3 \<or> d = 4 \<or> d = 5 \<or> d = 6 \<or> d = 7 \<or> d = 8 \<or>
        d = 9 \<or> d = 10 \<or> d = 11 \<or> d = 12 \<or> d = 13 \<or> d = 14 \<or> d = 15" by arith
    then show ?thesis by (elim disjE) (simp_all add: hex_digit_def printable_def)
  qed
  show ?thesis
    using hex by (auto simp: json_escape_char_def Let_def printable_def backslash_def dquote_def)
qed

lemma printable_json_string: "\<forall>c \<in> set (json_string s). printable c"
  using printable_escape by (auto simp: json_string_def printable_def dquote_def)

lemma printable_json_float:
  assumes "pyfloat_ok v"
  shows "\<forall>c \<in> set (json_float v). printable c"
proof (cases v)
  case (Fin x)
  show ?thesis
  proof (cases "x = 0")
    case False
    have a: "is_double \<bar>x\<bar>" "0 < \<bar>x\<bar>" using assms Fin False by (simp_all add: is_double_def)
    obtain m e where me: "repr_digits \<bar>x\<bar> = (m, e)" by fastforce
    let ?D = "strip_zeros (nat_str m)"
    have "m \<noteq> 0" using repr_digits_nonzero [OF a] me by simp
    then have ne: "?D \<noteq> []" by (rule strip_zeros_nat_str_ne)
    have "\<forall>c \<in> set (format_short ?D (int (length (nat_str m)) + e)).
            is_digit c \<or> c = CHR ''.'' \<or> c = CHR ''e'' \<or> c = CHR ''-'' \<or> c = CHR ''+''"
      by (rule format_short_chars [OF conjunct1 [OF strip_zeros_nat_str] ne])
    then have "\<forall>c \<in> set (format_short ?D (int (length (nat_str m)) + e)). printable c"
      using printable_digit by (auto simp: printable_def)
    with Fin False me show ?thesis
      by (auto simp: json_float_def float_repr_def Let_def printable_def)
  qed (simp add: Fin json_float_def float_repr_def printable_def)
qed (auto simp: json_float_def printable_def)

lemma set_sep_join: "set (sep_join sep ws) \<subseteq> set sep \<union> \<Union> (set ` set ws)"
  by (induction sep ws rule: sep_join.induct) auto

lemma printable_json_dumps: "json_ok j \<Longrightarrow> \<forall>c \<in> set (json_dumps j). printable c"
proof (induction j rule: json_dumps.induct)
  case (1 s)
  then show ?case by (simp add: printable_json_string)
next
  case (2 v)
  then show ?case by (simp add: printable_json_float)
next
  case (3 xs)
  have "\<forall>c \<in> set (sep_join '', '' (map json_dumps xs)). printable c"
    using set_sep_join [of "'', ''" "map json_dumps xs"] 3 by (fastforce simp: printable_def)
  then show ?case by (simp add: printable_def)
next
  case (4 kvs)
  have "\<forall>kv \<in> set kvs. \<forall>c \<in> set (json_string (fst kv) @ '': '' @ json_dumps (snd kv)). printable c"
    using 4 printable_json_string by (auto simp: printable_def)
  then have "\<forall>c \<in> set (sep_join '', '' (map (\<lambda>kv. json_string (fst kv) @ '': '' @ json_dumps (snd kv)) kvs)).
               printable c"
    using set_sep_join [of "'', ''" "map (\<lambda>kv. json_string (fst kv) @ '': '' @ json_dumps (snd kv)) kvs"]
    by (fastforce simp: printable_def)
  then show ?case by (simp add: printable_def)
qed

text \<open>
  C32: the published payload is printable ASCII on one line: whatever bytes the device
  sends in a description or a unit, they leave escaped.
\<close>

theorem metrics_payload_printable:
  assumes "\<forall>m \<in> set ms. pyfloat_ok (metric_value m)"
  shows "\<forall>c \<in> set (metrics_payload ms). printable c"
proof -
  have "json_ok (JArray (map metric_json ms))" using assms by (auto simp: metric_json_def)
  then show ?thesis unfolding metrics_payload_def by (rule printable_json_dumps)
qed

section \<open>Non-finite values reach the payload\<close>

lemma sep_join_member: "x \<in> set ws \<Longrightarrow> \<exists>pre post. sep_join sep ws = pre @ x @ post"
proof (induction sep ws rule: sep_join.induct)
  case (2 sep w)
  then show ?case by (intro exI [of _ "[]"]) simp
next
  case (3 sep w v vs)
  show ?case
  proof (cases "x = w")
    case True
    then show ?thesis by (intro exI [of _ "[]"] exI [of _ "sep @ sep_join sep (v # vs)"]) simp
  next
    case False
    with "3.prems" have "x \<in> set (v # vs)" by simp
    then obtain pre post where "sep_join sep (v # vs) = pre @ x @ post" using "3.IH" by blast
    then show ?thesis by (intro exI [of _ "w @ sep @ pre"] exI [of _ post]) simp
  qed
qed simp

lemma normalize_spec_NaN: "cv_value (normalize_spec d u NaN) = NaN"
  by (simp add: normalize_spec_def Let_def)

lemma json_value_NaN: "json_string ''value'' @ '': '' @ json_dumps (JFloat NaN) = ''\"value\": NaN''"
  by (simp add: json_string_def json_escape_char_def json_float_def dquote_def backslash_def)

lemma metric_json_NaN:
  assumes "metric_value m = NaN"
  shows "\<exists>pre post. json_dumps (metric_json m) = pre @ ''\"value\": NaN'' @ post"
proof -
  let ?f = "\<lambda>kv. json_string (fst kv) @ '': '' @ json_dumps (snd kv)"
  let ?kvs = "[(''id'', JString (metric_id m)), (''descriptor'', JString (metric_descriptor m)),
              (''type'', JString (metric_type m)), (''value'', JFloat (metric_value m)),
              (''description'', JString (metric_description m)), (''unit'', JString (metric_unit m)),
              (''unit_zabbix'', JString (metric_unit_zabbix m))]"
  have "(''value'', JFloat NaN) \<in> set ?kvs" using assms by simp
  then have "?f (''value'', JFloat NaN) \<in> set (map ?f ?kvs)" unfolding set_map by (rule imageI)
  then have "''\"value\": NaN'' \<in> set (map ?f ?kvs)" by (simp only: fst_conv snd_conv json_value_NaN)
  then obtain pre post where s: "sep_join '', '' (map ?f ?kvs) = pre @ ''\"value\": NaN'' @ post"
    by (blast dest: sep_join_member)
  have "json_dumps (metric_json m) = CHR ''{'' # sep_join '', '' (map ?f ?kvs) @ ''}''"
    by (simp only: metric_json_def json_dumps.simps)
  with s show ?thesis by (intro exI [of _ "CHR ''{'' # pre"] exI [of _ "post @ ''}''"]) simp
qed

text \<open>
  C34: \<open>float()\<close> accepts \<open>nan\<close> from the device (in any case, signed, with
  surrounding white space). For every row whose raw value reads as NaN, whatever its
  multiplier and unit, the metric's value is NaN, and every payload that holds the metric
  carries the bare token \<open>NaN\<close>, which strict JSON (RFC 8259) does not allow.
\<close>

theorem nan_payload_token:
  assumes "wf_fields vs" and "float_of_str (vs ! 3) = Inr NaN" and "float_of_str (vs ! 5) = Inr y"
  shows "\<exists>m. process_line (py_join (CHR '';'') vs) = Inr m \<and> metric_value m = NaN \<and>
           (\<forall>ms. m \<in> set ms \<longrightarrow> (\<exists>pre post. metrics_payload ms = pre @ ''\"value\": NaN'' @ post))"
proof -
  let ?m = "spec_metric vs NaN"
  have p: "process_line (py_join (CHR '';'') vs) = Inr ?m"
    using process_line_fields [OF assms(1)] assms(2,3) by (simp add: spec_row_def)
  have v: "metric_value ?m = NaN"
    by (simp add: spec_metric_def Let_def normalize_spec_NaN)
  have "\<exists>pre post. metrics_payload ms = pre @ ''\"value\": NaN'' @ post" if "?m \<in> set ms" for ms
  proof -
    obtain a b where ab: "json_dumps (metric_json ?m) = a @ ''\"value\": NaN'' @ b"
      using metric_json_NaN [OF v] by blast
    have "json_dumps (metric_json ?m) \<in> set (map json_dumps (map metric_json ms))" using that by simp
    then obtain pre post where "sep_join '', '' (map json_dumps (map metric_json ms)) = pre @ json_dumps (metric_json ?m) @ post"
      using sep_join_member by blast
    with ab show ?thesis
      by (intro exI [of _ "CHR ''['' # pre @ a"] exI [of _ "b @ post @ '']''"]) (simp add: metrics_payload_def)
  qed
  with p v show ?thesis by blast
qed

section \<open>Examples\<close>

theorem metrics_payload_printable_witness:
  "list_all printable (metrics_payload [\<lparr>metric_id = ''1'', metric_descriptor = ''D'', metric_type = ''F'',
     metric_value = NaN, metric_description = [CHR 0x0A], metric_unit = ''Hz'', metric_unit_zabbix = ''Hz''\<rparr>])"
  using metrics_payload_printable [of "[\<lparr>metric_id = ''1'', metric_descriptor = ''D'', metric_type = ''F'',
     metric_value = NaN, metric_description = [CHR 0x0A], metric_unit = ''Hz'', metric_unit_zabbix = ''Hz''\<rparr>]"]
  by (simp add: list_all_iff)

theorem nan_payload_token_witness:
  "\<exists>m. process_line ''8;D;F;nan;\"L\";1.000000;W'' = Inr m \<and> metric_value m = NaN \<and>
     (\<exists>pre post. metrics_payload [m] = pre @ ''\"value\": NaN'' @ post)"
proof -
  let ?vs = "[''8'', ''D'', ''F'', ''nan'', ''\"L\"'', ''1.000000'', ''W'']"
  have w: "wf_fields ?vs" by (simp add: wf_fields_def)
  have n: "float_of_str (?vs ! 3) = Inr NaN" by (simp add: float_parse_defs)
  have o: "float_of_str (?vs ! 5) = Inr (Fin 1)" using float_of_str_one by simp
  obtain m where m: "process_line (py_join (CHR '';'') ?vs) = Inr m" and v: "metric_value m = NaN"
    and p: "\<forall>ms. m \<in> set ms \<longrightarrow> (\<exists>pre post. metrics_payload ms = pre @ ''\"value\": NaN'' @ post)"
    using nan_payload_token [OF w n o] by blast
  have j: "py_join (CHR '';'') ?vs = ''8;D;F;nan;\"L\";1.000000;W''" by simp
  have "process_line ''8;D;F;nan;\"L\";1.000000;W'' = Inr m" using m unfolding j .
  moreover have "\<exists>pre post. metrics_payload [m] = pre @ ''\"value\": NaN'' @ post"
    using p [rule_format, of "[m]"] by simp
  ultimately show ?thesis using v by blast
qed

end
