(* ===== verification/Worker_Config.thy ===== *)
theory Worker_Config
  imports Json_Payload
begin

text \<open>
  What the worker reads and what it does to the outside world. \<open>config\<close> is the part
  of the YAML configuration (\<open>read_config\<close>, a module-level dictionary in
  \<open>src/app.py\<close>) that the core reads: \<open>config['benning'][...]\<close>,
  \<open>config['mqtt'][...]\<close> and \<open>config['repeat']\<close>. An \<open>event\<close> is one observable
  effect, in the order the code performs them: an HTTP request, a connection attempt or a
  publication (topic and payload text) on the MQTT client, a sleep, and each log record (its level and what it
  reports; the exact message text is not modelled). A run of the worker is the list of
  its events.
\<close>

record config =
  benning_host :: string
  benning_username :: string
  benning_password :: string
  mqtt_host :: string
  mqtt_topic :: string
  repeat :: rat

datatype event =
    LogFetch string
  | HttpGet string string string
  | LogFetchError
  | LogProcessed nat
  | MqttConnect string nat nat
  | LogMqttConnectError
  | MqttPublish string string
  | LogPublishWarning
  | LogTaskException py_exc
  | Sleep rat

text \<open>A configuration for the examples: a five-second interval.\<close>

abbreviation example_config :: config where
  "example_config \<equiv> \<lparr>benning_host = ''192.168.0.10'', benning_username = ''admin'',
     benning_password = ''secret'', mqtt_host = ''broker'', mqtt_topic = ''benning'', repeat = 5\<rparr>"

fun is_publish :: "event \<Rightarrow> bool" where
  "is_publish (MqttPublish t p) = True"
| "is_publish e = False"

fun is_connect :: "event \<Rightarrow> bool" where
  "is_connect (MqttConnect h p k) = True"
| "is_connect e = False"

fun is_http_get :: "event \<Rightarrow> bool" where
  "is_http_get (HttpGet u n p) = True"
| "is_http_get e = False"

end
