(* ===== verification/Device_Fetcher.thy ===== *)
theory Device_Fetcher
  imports Worker_Config
begin

text \<open>
  The HTTP part of \<open>do_repeat\<close> (\<open>src/app.py\<close> lines 155 to 165 and 220 to 221):
  the URL with its fixed object-id range, the log record before the request, the
  request with basic authentication, and the four outcomes the code distinguishes.
  \<open>requests.get\<close> itself is the environment: its outcome is an input
  (\<open>http_outcome\<close>), the body already decoded as UTF-8 text.
\<close>

definition fetch_url :: "string \<Rightarrow> string" where
  "fetch_url host = ''http://'' @ host @ ''/getallentries.cgi?firstOid=10000&lastOid=20000''"

datatype http_outcome =
    HttpConnectionError
  | HttpRequestError
  | HttpResponse nat string

datatype fetch_result = FetchFailed | FetchBody string

text \<open>
  A \<open>ConnectionError\<close> is logged and ends the call normally (\<open>FetchFailed\<close>); any
  other exception of \<open>requests.get\<close> escapes; a status other than 200 raises the
  module's \<open>Error\<close> with the response text; a 200 response hands its text on.
\<close>

definition fetch :: "config \<Rightarrow> http_outcome \<Rightarrow> event list \<times> fetch_result result" where
  "fetch cfg h =
     (let url = fetch_url (benning_host cfg);
          evs = [LogFetch url, HttpGet url (benning_username cfg) (benning_password cfg)]
      in case h of
           HttpConnectionError \<Rightarrow> (evs @ [LogFetchError], Inr FetchFailed)
         | HttpRequestError \<Rightarrow> (evs, Inl RequestError)
         | HttpResponse status text \<Rightarrow>
             if status = 200 then (evs, Inr (FetchBody text)) else (evs, Inl (AppError text)))"

lemma fetch_events:
  "fst (fetch cfg h) =
     [LogFetch (fetch_url (benning_host cfg)),
      HttpGet (fetch_url (benning_host cfg)) (benning_username cfg) (benning_password cfg)]
     @ (if h = HttpConnectionError then [LogFetchError] else [])"
  by (cases h) (simp_all add: fetch_def Let_def)

lemma fetch_result_cases:
  "snd (fetch cfg h) =
     (case h of HttpConnectionError \<Rightarrow> Inr FetchFailed
      | HttpRequestError \<Rightarrow> Inl RequestError
      | HttpResponse status text \<Rightarrow>
          if status = 200 then Inr (FetchBody text) else Inl (AppError text))"
  by (cases h) (simp_all add: fetch_def Let_def)

end
