(* ===== verification/Mqtt_Publisher.thy ===== *)
theory Mqtt_Publisher
  imports Worker_Config
begin

text \<open>
  The MQTT side of the worker (\<open>src/app.py\<close> lines 124 to 139 and 213 to 218). Its
  state is the attribute \<open>mqtt_connected\<close> and the client object; each call of
  \<open>mqtt_connect\<close> makes a new \<open>mqtt.Client()\<close>, so the model counts the clients
  made (\<open>mqtt_clients\<close>, the current one being the last). Whether
  \<open>client.connect\<close> raises is an input (\<open>ok\<close>). The publication callback only logs
  and is not modelled; the payload is the text \<open>json.dumps(allmetrics)\<close>
  (\<open>metrics_payload\<close>).
\<close>

record mqtt_state =
  mqtt_connected :: bool
  mqtt_clients :: nat

definition mqtt_connect :: "config \<Rightarrow> bool \<Rightarrow> mqtt_state \<Rightarrow> mqtt_state \<times> event list" where
  "mqtt_connect cfg ok st =
     (st\<lparr>mqtt_clients := Suc (mqtt_clients st), mqtt_connected := ok\<rparr>,
      MqttConnect (mqtt_host cfg) 1883 60 # (if ok then [] else [LogMqttConnectError]))"

text \<open>Publish when connected; otherwise warn and make one new connection attempt.\<close>

definition publish_metrics ::
  "config \<Rightarrow> bool \<Rightarrow> metric list \<Rightarrow> mqtt_state \<Rightarrow> mqtt_state \<times> event list" where
  "publish_metrics cfg ok ms st =
     (if mqtt_connected st then (st, [MqttPublish (mqtt_topic cfg) (metrics_payload ms)])
      else let (st', evs) = mqtt_connect cfg ok st in (st', LogPublishWarning # evs))"

lemma mqtt_connect_state:
  "fst (mqtt_connect cfg ok st) = st\<lparr>mqtt_clients := Suc (mqtt_clients st), mqtt_connected := ok\<rparr>"
  by (simp add: mqtt_connect_def)

lemma publish_metrics_connected:
  "mqtt_connected st \<Longrightarrow>
   publish_metrics cfg ok ms st = (st, [MqttPublish (mqtt_topic cfg) (metrics_payload ms)])"
  by (simp add: publish_metrics_def)

lemma publish_metrics_disconnected:
  "\<not> mqtt_connected st \<Longrightarrow>
   publish_metrics cfg ok ms st =
     (st\<lparr>mqtt_clients := Suc (mqtt_clients st), mqtt_connected := ok\<rparr>,
      LogPublishWarning # MqttConnect (mqtt_host cfg) 1883 60 #
        (if ok then [] else [LogMqttConnectError]))"
  by (simp add: publish_metrics_def mqtt_connect_def)

lemma publish_metrics_keeps_connected:
  "mqtt_connected st \<Longrightarrow> mqtt_connected (fst (publish_metrics cfg ok ms st))"
  by (simp add: publish_metrics_def)

end
