(* ===== verification/Worker.thy ===== *)
theory Worker
  imports Device_Fetcher Mqtt_Publisher
begin

text \<open>
  One call of the repeated task \<open>BenningSolarMetricsWorker.do_repeat\<close>
  (\<open>src/app.py\<close> lines 154 to 221): fetch, parse the body into metrics, log the line
  count, publish or reconnect. The environment supplies the HTTP outcome and, for the
  reconnect branch, whether \<open>client.connect\<close> succeeds. The result is the events in
  order and either the new MQTT state or the exception that leaves the call (the events
  before it have happened).
\<close>

definition do_repeat ::
  "config \<Rightarrow> http_outcome \<Rightarrow> bool \<Rightarrow> mqtt_state \<Rightarrow> event list \<times> mqtt_state result" where
  "do_repeat cfg h ok st =
     (case fetch cfg h of
        (evs, Inl e) \<Rightarrow> (evs, Inl e)
      | (evs, Inr FetchFailed) \<Rightarrow> (evs, Inr st)
      | (evs, Inr (FetchBody text)) \<Rightarrow>
          (case parse_body text of
             Inl e \<Rightarrow> (evs, Inl e)
           | Inr (allmetrics, linecnt) \<Rightarrow>
               (let (st', evs') = publish_metrics cfg ok allmetrics st
                in (evs @ [LogProcessed linecnt] @ evs', Inr st'))))"

lemma do_repeat_ok_200:
  "parse_body text = Inr (ms, n) \<Longrightarrow>
   do_repeat cfg (HttpResponse 200 text) ok st =
     (fst (fetch cfg (HttpResponse 200 text)) @ [LogProcessed n] @ snd (publish_metrics cfg ok ms st),
      Inr (fst (publish_metrics cfg ok ms st)))"
  by (simp add: do_repeat_def fetch_def Let_def split: prod.splits)

lemma do_repeat_parse_error:
  "parse_body text = Inl e \<Longrightarrow>
   do_repeat cfg (HttpResponse 200 text) ok st = (fst (fetch cfg (HttpResponse 200 text)), Inl e)"
  by (simp add: do_repeat_def fetch_def Let_def)

lemma do_repeat_status:
  "status \<noteq> 200 \<Longrightarrow>
   do_repeat cfg (HttpResponse status text) ok st =
     (fst (fetch cfg (HttpResponse status text)), Inl (AppError text))"
  by (simp add: do_repeat_def fetch_def Let_def)

lemma do_repeat_conn_error:
  "do_repeat cfg HttpConnectionError ok st = (fst (fetch cfg HttpConnectionError), Inr st)"
  by (simp add: do_repeat_def fetch_def Let_def)

lemma do_repeat_request_error:
  "do_repeat cfg HttpRequestError ok st = (fst (fetch cfg HttpRequestError), Inl RequestError)"
  by (simp add: do_repeat_def fetch_def Let_def)

lemma do_repeat_cases:
  obtains (conn) "h = HttpConnectionError" "do_repeat cfg h ok st = (fst (fetch cfg h), Inr st)"
  | (req) "h = HttpRequestError" "do_repeat cfg h ok st = (fst (fetch cfg h), Inl RequestError)"
  | (bad_status) code body where "h = HttpResponse code body" "code \<noteq> 200"
      "do_repeat cfg h ok st = (fst (fetch cfg h), Inl (AppError body))"
  | (parse) body e where "h = HttpResponse 200 body" "parse_body body = Inl e"
      "do_repeat cfg h ok st = (fst (fetch cfg h), Inl e)"
  | (publish) body ms n where "h = HttpResponse 200 body" "parse_body body = Inr (ms, n)"
      "do_repeat cfg h ok st =
         (fst (fetch cfg h) @ [LogProcessed n] @ snd (publish_metrics cfg ok ms st),
          Inr (fst (publish_metrics cfg ok ms st)))"
proof (cases h)
  case HttpConnectionError
  then show ?thesis using conn do_repeat_conn_error by blast
next
  case HttpRequestError
  then show ?thesis using req do_repeat_request_error by blast
next
  case (HttpResponse code body)
  show ?thesis
  proof (cases "code = 200")
    case False
    with HttpResponse show ?thesis using bad_status do_repeat_status by blast
  next
    case True
    show ?thesis
    proof (cases "parse_body body")
      case (Inl e)
      with HttpResponse True show ?thesis using parse do_repeat_parse_error by blast
    next
      case (Inr r)
      then obtain ms n where "parse_body body = Inr (ms, n)" by (cases r) auto
      with HttpResponse True show ?thesis using publish do_repeat_ok_200 by blast
    qed
  qed
qed

section \<open>Observable effects of one call\<close>

lemma fetch_filters:
  "filter is_publish (fst (fetch cfg h)) = []"
  "filter is_connect (fst (fetch cfg h)) = []"
  "filter is_http_get (fst (fetch cfg h)) =
     [HttpGet (fetch_url (benning_host cfg)) (benning_username cfg) (benning_password cfg)]"
  by (simp_all add: fetch_events)

lemma publish_filters:
  "filter is_publish (snd (publish_metrics cfg ok ms st)) =
     (if mqtt_connected st then [MqttPublish (mqtt_topic cfg) (metrics_payload ms)] else [])"
  "filter is_connect (snd (publish_metrics cfg ok ms st)) =
     (if mqtt_connected st then [] else [MqttConnect (mqtt_host cfg) 1883 60])"
  "filter is_http_get (snd (publish_metrics cfg ok ms st)) = []"
  by (simp_all add: publish_metrics_def mqtt_connect_def)

lemmas effect_filters = fetch_filters publish_filters

lemma do_repeat_http_gets:
  "filter is_http_get (fst (do_repeat cfg h ok st)) =
     [HttpGet (fetch_url (benning_host cfg)) (benning_username cfg) (benning_password cfg)]"
  by (cases rule: do_repeat_cases [where h = h and cfg = cfg and ok = ok and st = st])
     (simp_all add: effect_filters)

lemma do_repeat_publishes_le:
  "length (filter is_publish (fst (do_repeat cfg h ok st))) \<le> 1"
  by (cases rule: do_repeat_cases [where h = h and cfg = cfg and ok = ok and st = st])
     (simp_all add: effect_filters)

lemma do_repeat_connects_connected:
  "mqtt_connected st \<Longrightarrow> filter is_connect (fst (do_repeat cfg h ok st)) = []"
  by (cases rule: do_repeat_cases [where h = h and cfg = cfg and ok = ok and st = st])
     (simp_all add: effect_filters)

lemma do_repeat_keeps_connected:
  "mqtt_connected st \<Longrightarrow> do_repeat cfg h ok st = (evs, Inr st') \<Longrightarrow> mqtt_connected st'"
  by (cases rule: do_repeat_cases [where h = h and cfg = cfg and ok = ok and st = st])
     (auto simp: publish_metrics_def)

text \<open>
  The order of the effects of one call: the log record and the GET of the fetch come
  first, no other request follows, and a publication or a connection attempt comes only
  after the line count is logged, that is after the whole body has been parsed.
\<close>

lemma bus_after_count_Cons:
  "\<forall>k < length (LogProcessed n # evs). is_publish ((LogProcessed n # evs) ! k) \<or> is_connect ((LogProcessed n # evs) ! k) \<longrightarrow>
     (\<exists>j < k. \<exists>n'. (LogProcessed n # evs) ! j = LogProcessed n')"
proof (intro allI impI)
  fix k assume k: "k < length (LogProcessed n # evs)" and b: "is_publish ((LogProcessed n # evs) ! k) \<or> is_connect ((LogProcessed n # evs) ! k)"
  then have "k \<noteq> 0" by (cases k) simp_all
  then show "\<exists>j < k. \<exists>n'. (LogProcessed n # evs) ! j = LogProcessed n'" by auto
qed

lemma bus_after_count_none:
  "\<forall>ev \<in> set evs. \<not> is_publish ev \<and> \<not> is_connect ev \<Longrightarrow>
   \<forall>k < length evs. is_publish (evs ! k) \<or> is_connect (evs ! k) \<longrightarrow> (\<exists>j < k. \<exists>n. evs ! j = LogProcessed n)"
  by (auto dest: nth_mem)

lemma do_repeat_order:
  "\<exists>rest. fst (do_repeat cfg h ok st) =
     LogFetch (fetch_url (benning_host cfg)) #
     HttpGet (fetch_url (benning_host cfg)) (benning_username cfg) (benning_password cfg) # rest \<and>
   filter is_http_get rest = [] \<and>
   (\<forall>k < length rest. is_publish (rest ! k) \<or> is_connect (rest ! k) \<longrightarrow>
      (\<exists>j < k. \<exists>n. rest ! j = LogProcessed n))"
proof (cases rule: do_repeat_cases [where h = h and cfg = cfg and ok = ok and st = st])
  case (publish body ms n)
  have "filter is_http_get (snd (publish_metrics cfg ok ms st)) = []" by (rule publish_filters(3))
  then show ?thesis
    using publish bus_after_count_Cons [of n "snd (publish_metrics cfg ok ms st)"]
    by (simp add: fetch_events)
qed (auto simp: fetch_events intro!: bus_after_count_none)

text \<open>Where a publication of one call comes from: a 200 response whose body parsed.\<close>

lemma do_repeat_publish:
  assumes "MqttPublish t p \<in> set (fst (do_repeat cfg h ok st))"
  shows "\<exists>body ms n. h = HttpResponse 200 body \<and> parse_body body = Inr (ms, n) \<and>
           t = mqtt_topic cfg \<and> p = metrics_payload ms"
  using assms
proof (cases rule: do_repeat_cases [where h = h and cfg = cfg and ok = ok and st = st])
  case (publish body ms n)
  then show ?thesis using assms
    by (auto simp: fetch_events publish_metrics_def mqtt_connect_def split: if_splits)
qed (auto simp: fetch_events)

text \<open>
  C21: a call that ends normally makes at most one new MQTT client (one reconnection
  attempt) and never fewer than before.
\<close>

theorem do_repeat_clients:
  "do_repeat cfg h ok st = (evs, Inr st') \<Longrightarrow>
   mqtt_clients st \<le> mqtt_clients st' \<and> mqtt_clients st' \<le> Suc (mqtt_clients st)"
  by (cases rule: do_repeat_cases [where h = h and cfg = cfg and ok = ok and st = st])
     (auto simp: publish_metrics_def mqtt_connect_def split: prod.splits)

lemma do_repeat_reconnect_example:
  "do_repeat example_config (HttpResponse 200 (''1;D;F;2;x;1.000000;Hz'' @ [LF])) True
     \<lparr>mqtt_connected = False, mqtt_clients = 1\<rparr> =
   (fst (do_repeat example_config (HttpResponse 200 (''1;D;F;2;x;1.000000;Hz'' @ [LF])) True
     \<lparr>mqtt_connected = False, mqtt_clients = 1\<rparr>),
    Inr \<lparr>mqtt_connected = True, mqtt_clients = 2\<rparr>)"
  using do_repeat_ok_200 [OF parse_body_example, of example_config True
      "\<lparr>mqtt_connected = False, mqtt_clients = 1\<rparr>"]
  by (simp add: publish_metrics_disconnected)

theorem do_repeat_clients_witness:
  "mqtt_clients \<lparr>mqtt_connected = False, mqtt_clients = 1\<rparr>
     \<le> mqtt_clients \<lparr>mqtt_connected = True, mqtt_clients = 2\<rparr> \<and>
   mqtt_clients \<lparr>mqtt_connected = True, mqtt_clients = 2\<rparr>
     \<le> Suc (mqtt_clients \<lparr>mqtt_connected = False, mqtt_clients = 1\<rparr>)"
  by (rule do_repeat_clients [OF do_repeat_reconnect_example])

end
