(* ===== verification/Scheduler.thy ===== *)
theory Scheduler
  imports Worker
begin

text \<open>
  The scheduler \<open>BenningSolarMetricsWorker.every\<close> (\<open>src/app.py\<close> lines 141 to
  152) driving \<open>do_repeat\<close>, and the constructor (lines 120 to 122) that connects to
  MQTT and enters it. The clock is the environment: each iteration reads
  \<open>time.time()\<close> once before its sleep (\<open>clock_before\<close>) and once after the task
  (\<open>clock_after\<close>); with the HTTP outcome and the connection outcome these make the
  input \<open>tick_env\<close> of one iteration. Times are exact rationals (the float rounding
  of timestamps is not modelled). The loop never ends by itself, so it is modelled by
  its iteration (\<open>every_iteration\<close>), runs over finite lists of inputs
  (\<open>run_every\<close>) and the reachable states (\<open>reachable\<close>).
\<close>

text \<open>
  Line 152, \<open>next_time += (time.time() - next_time) // delay * delay + delay\<close>:
  Python's \<open>//\<close> on floats is the floor of the quotient and raises
  \<open>ZeroDivisionError\<close> for a zero divisor. The statement is outside the \<open>try\<close>.
\<close>

definition next_fire :: "rat \<Rightarrow> rat \<Rightarrow> rat \<Rightarrow> rat result" where
  "next_fire delay now next_time =
     (if delay = 0 then Inl ZeroDivisionError
      else Inr (next_time + of_int \<lfloor>(now - next_time) / delay\<rfloor> * delay + delay))"

record sched_state =
  worker_mqtt :: mqtt_state
  next_time :: rat

record tick_env =
  clock_before :: rat
  http :: http_outcome
  connect_ok :: bool
  clock_after :: rat

text \<open>
  One pass of \<open>while True\<close>: sleep until the next time, run the task, log any
  exception it raises (\<open>logging.exception\<close>) and go on, then advance the next time.
\<close>

definition every_iteration ::
  "config \<Rightarrow> tick_env \<Rightarrow> sched_state \<Rightarrow> event list \<times> sched_state result" where
  "every_iteration cfg e s =
     (let (evs, r) = do_repeat cfg (http e) (connect_ok e) (worker_mqtt s);
          (evs_exc, mq) = (case r of Inl ex \<Rightarrow> ([LogTaskException ex], worker_mqtt s)
                                  | Inr m \<Rightarrow> ([], m))
      in (Sleep (max 0 (next_time s - clock_before e)) # evs @ evs_exc,
          rbind (next_fire (repeat cfg) (clock_after e) (next_time s))
            (\<lambda>nt. Inr \<lparr>worker_mqtt = mq, next_time = nt\<rparr>)))"

text \<open>
  The constructor: \<open>mqtt_connect()\<close> (the attribute \<open>mqtt_connected\<close> does not
  exist before, read here as \<open>False\<close>), then \<open>every\<close> with
  \<open>next_time = time.time()\<close>.
\<close>

definition worker_init :: "config \<Rightarrow> bool \<Rightarrow> rat \<Rightarrow> event list \<times> sched_state" where
  "worker_init cfg ok t0 =
     (let (mq, evs) = mqtt_connect cfg ok \<lparr>mqtt_connected = False, mqtt_clients = 0\<rparr>
      in (evs, \<lparr>worker_mqtt = mq, next_time = t0\<rparr>))"

fun run_every :: "config \<Rightarrow> tick_env list \<Rightarrow> sched_state \<Rightarrow> event list \<times> sched_state result" where
  "run_every cfg [] s = ([], Inr s)"
| "run_every cfg (e # es) s =
     (case every_iteration cfg e s of
        (evs, Inl ex) \<Rightarrow> (evs, Inl ex)
      | (evs, Inr s') \<Rightarrow> (let (evs', r) = run_every cfg es s' in (evs @ evs', r)))"

inductive reachable :: "config \<Rightarrow> rat \<Rightarrow> sched_state \<Rightarrow> bool" for cfg t0 where
  init: "reachable cfg t0 (snd (worker_init cfg ok t0))"
| step: "reachable cfg t0 s \<Longrightarrow> every_iteration cfg e s = (evs, Inr s') \<Longrightarrow> reachable cfg t0 s'"

text \<open>What the \<open>try\<close> of one iteration leaves: the log record and the unchanged state
  after an exception, the new state otherwise.\<close>

definition task_outcome :: "mqtt_state \<Rightarrow> mqtt_state result \<Rightarrow> event list \<times> mqtt_state" where
  "task_outcome st r = (case r of Inl ex \<Rightarrow> ([LogTaskException ex], st) | Inr m \<Rightarrow> ([], m))"

text \<open>Examples: a worker connected since time 0, and a tick whose task ends at time 10.\<close>

abbreviation example_state :: sched_state where
  "example_state \<equiv> \<lparr>worker_mqtt = \<lparr>mqtt_connected = True, mqtt_clients = 1\<rparr>, next_time = 0\<rparr>"

abbreviation example_tick :: "http_outcome \<Rightarrow> tick_env" where
  "example_tick h \<equiv> \<lparr>clock_before = 0, http = h, connect_ok = True, clock_after = 10\<rparr>"

text \<open>
  What \<open>time.sleep\<close> guarantees of the clock: the pass sleeps
  \<open>max(0, next_time - time.time())\<close> and sleeps at least that long, and the task takes
  no negative time, so the reading after the task is no earlier than the wake-up time
  \<open>max clock_before next_time\<close>. A run respects it at every pass it makes.
\<close>

definition sleep_respected :: "tick_env \<Rightarrow> sched_state \<Rightarrow> bool" where
  "sleep_respected e s \<longleftrightarrow> max (clock_before e) (next_time s) \<le> clock_after e"

fun run_sleeps_respected :: "config \<Rightarrow> tick_env list \<Rightarrow> sched_state \<Rightarrow> bool" where
  "run_sleeps_respected cfg [] s = True"
| "run_sleeps_respected cfg (e # es) s =
     (sleep_respected e s \<and>
      (case snd (every_iteration cfg e s) of Inl ex \<Rightarrow> True | Inr s' \<Rightarrow> run_sleeps_respected cfg es s'))"

section \<open>The next fire time\<close>

lemma next_fire_Inr:
  "delay \<noteq> 0 \<Longrightarrow>
   next_fire delay now nt = Inr (nt + of_int \<lfloor>(now - nt) / delay\<rfloor> * delay + delay)"
  by (simp add: next_fire_def)

lemma floor_quotient_bounds:
  assumes "0 < d"
  shows "of_int \<lfloor>x / d\<rfloor> * d \<le> x \<and> x < of_int \<lfloor>x / d\<rfloor> * d + (d :: rat)"
proof
  have "of_int \<lfloor>x / d\<rfloor> \<le> x / d" by linarith
  with assms show "of_int \<lfloor>x / d\<rfloor> * d \<le> x" by (simp add: le_divide_eq)
  have "x / d < of_int \<lfloor>x / d\<rfloor> + 1" by linarith
  with assms have "x < (of_int \<lfloor>x / d\<rfloor> + 1) * d" by (simp add: divide_less_eq)
  then show "x < of_int \<lfloor>x / d\<rfloor> * d + d" by (simp add: algebra_simps)
qed

lemma next_fire_after:
  assumes "0 < d" and "next_fire d now nt = Inr nt'"
  shows "now < nt' \<and> nt' \<le> now + d"
  using assms floor_quotient_bounds [OF assms(1), of "now - nt"]
  by (auto simp: next_fire_def)

lemma next_fire_grid:
  assumes "next_fire d now nt = Inr nt'"
  shows "nt' = nt + of_int (\<lfloor>(now - nt) / d\<rfloor> + 1) * d"
  using assms by (auto simp: next_fire_def algebra_simps split: if_splits)

text \<open>
  C3: the next fire time is the first point of the grid of the current fire time
  (multiples of the interval) that lies strictly after the clock: missed ticks are
  skipped, never queued.
\<close>

theorem next_fire_least:
  assumes "0 < d" and "next_fire d now nt = Inr nt'"
  shows "now < nt' \<and> (\<exists>k::int. nt' = nt + of_int k * d) \<and>
         (\<forall>k::int. now < nt + of_int k * d \<longrightarrow> nt' \<le> nt + of_int k * d)"
proof (intro conjI allI impI)
  let ?q = "\<lfloor>(now - nt) / d\<rfloor>"
  have nt': "nt' = nt + of_int (?q + 1) * d" using assms(2) by (rule next_fire_grid)
  show "now < nt'" using next_fire_after [OF assms] by simp
  show "\<exists>k::int. nt' = nt + of_int k * d" using nt' by blast
  fix k :: int
  assume "now < nt + of_int k * d"
  then have "(now - nt) / d < of_int k" using assms(1) by (simp add: divide_less_eq)
  then have "?q < k" by (simp add: floor_less_iff)
  then have "of_int (?q + 1) * d \<le> of_int k * d" using assms(1) by simp
  then show "nt' \<le> nt + of_int k * d" using nt' by simp
qed

section \<open>One iteration\<close>

lemma every_iteration_eq:
  "every_iteration cfg e s =
     (Sleep (max 0 (next_time s - clock_before e)) #
        fst (do_repeat cfg (http e) (connect_ok e) (worker_mqtt s)) @
        fst (task_outcome (worker_mqtt s) (snd (do_repeat cfg (http e) (connect_ok e) (worker_mqtt s)))),
      rbind (next_fire (repeat cfg) (clock_after e) (next_time s))
        (\<lambda>nt. Inr \<lparr>worker_mqtt = snd (task_outcome (worker_mqtt s)
                      (snd (do_repeat cfg (http e) (connect_ok e) (worker_mqtt s)))),
                   next_time = nt\<rparr>))"
  by (simp add: every_iteration_def task_outcome_def split: prod.splits sum.splits)

lemma every_iteration_Inr_next_fire:
  "every_iteration cfg e s = (evs, Inr s') \<Longrightarrow>
   next_fire (repeat cfg) (clock_after e) (next_time s) = Inr (next_time s')"
  by (auto simp: every_iteration_eq rbind_eq_Inr_iff)

lemma every_iteration_Inr_mqtt:
  "every_iteration cfg e s = (evs, Inr s') \<Longrightarrow>
   worker_mqtt s' =
     snd (task_outcome (worker_mqtt s) (snd (do_repeat cfg (http e) (connect_ok e) (worker_mqtt s))))"
  by (auto simp: every_iteration_eq rbind_eq_Inr_iff)

text \<open>
  C4: whatever the device, the network and the broker do, an iteration with a non-zero
  interval ends normally and moves the fire time to the next point of the grid: every
  exception of the task is caught and logged.
\<close>

theorem every_iteration_continues:
  assumes "repeat cfg \<noteq> 0"
  shows "\<exists>s'. snd (every_iteration cfg e s) = Inr s' \<and>
           next_fire (repeat cfg) (clock_after e) (next_time s) = Inr (next_time s')"
  using assms by (simp add: every_iteration_eq next_fire_def)

text \<open>
  C9: a zero interval makes the first iteration raise \<open>ZeroDivisionError\<close> outside
  the \<open>try\<close>: the loop and the process end after one task.
\<close>

theorem zero_interval_crashes:
  assumes "repeat cfg = 0"
  shows "run_every cfg (e # es) s = (fst (every_iteration cfg e s), Inl ZeroDivisionError)"
  using assms by (simp add: every_iteration_eq next_fire_def split: prod.splits)

section \<open>Effects of an iteration and of a run\<close>

lemma every_iteration_filter:
  assumes "\<And>x. \<not> P (Sleep x)" and "\<And>ex. \<not> P (LogTaskException ex)"
  shows "filter P (fst (every_iteration cfg e s)) =
           filter P (fst (do_repeat cfg (http e) (connect_ok e) (worker_mqtt s)))"
proof -
  have "filter P (fst (task_outcome st r)) = []" for st r
    using assms(2) by (simp add: task_outcome_def split: sum.splits)
  then show ?thesis
    using assms by (simp add: every_iteration_eq)
qed

lemma every_iteration_filters:
  "filter is_publish (fst (every_iteration cfg e s)) =
     filter is_publish (fst (do_repeat cfg (http e) (connect_ok e) (worker_mqtt s)))"
  "filter is_connect (fst (every_iteration cfg e s)) =
     filter is_connect (fst (do_repeat cfg (http e) (connect_ok e) (worker_mqtt s)))"
  "filter is_http_get (fst (every_iteration cfg e s)) =
     filter is_http_get (fst (do_repeat cfg (http e) (connect_ok e) (worker_mqtt s)))"
  by (rule every_iteration_filter; simp)+

text \<open>
  C10: connected, with a 200 response whose body parses, the tick publishes exactly once,
  on the configured topic, exactly the parsed metrics.
\<close>

theorem tick_publishes_parsed_metrics:
  assumes "mqtt_connected (worker_mqtt s)" and "http e = HttpResponse 200 body"
    and "parse_body body = Inr (ms, n)"
  shows "filter is_publish (fst (every_iteration cfg e s)) =
           [MqttPublish (mqtt_topic cfg) (metrics_payload ms)]"
  using assms by (simp add: every_iteration_filters do_repeat_ok_200 effect_filters)

text \<open>
  C11: not connected, with a 200 response whose body parses, the tick publishes nothing,
  logs a warning and makes exactly one connection attempt, to the configured broker on
  port 1883 with keep-alive 60.
\<close>

theorem tick_disconnected_skips_publish:
  assumes "\<not> mqtt_connected (worker_mqtt s)" and "http e = HttpResponse 200 body"
    and "parse_body body = Inr (ms, n)"
  shows "filter is_publish (fst (every_iteration cfg e s)) = [] \<and>
         filter is_connect (fst (every_iteration cfg e s)) = [MqttConnect (mqtt_host cfg) 1883 60] \<and>
         LogPublishWarning \<in> set (fst (every_iteration cfg e s))"
  using assms
  by (simp add: every_iteration_filters do_repeat_ok_200 effect_filters every_iteration_eq
        publish_metrics_disconnected task_outcome_def)

text \<open>C14: whatever happens, one tick publishes at most once.\<close>

theorem tick_at_most_one_publish:
  "length (filter is_publish (fst (every_iteration cfg e s))) \<le> 1"
  using do_repeat_publishes_le [of cfg "http e" "connect_ok e" "worker_mqtt s"]
  by (simp only: every_iteration_filters)

lemma every_iteration_keeps_connected:
  assumes c: "mqtt_connected (worker_mqtt s)" and it: "every_iteration cfg e s = (evs, Inr s')"
  shows "mqtt_connected (worker_mqtt s')"
proof -
  obtain evs0 r where d: "do_repeat cfg (http e) (connect_ok e) (worker_mqtt s) = (evs0, r)"
    by (cases "do_repeat cfg (http e) (connect_ok e) (worker_mqtt s)")
  have m: "worker_mqtt s' = snd (task_outcome (worker_mqtt s) r)"
    using every_iteration_Inr_mqtt [OF it] d by simp
  show ?thesis
  proof (cases r)
    case (Inl ex)
    with m c show ?thesis by (simp add: task_outcome_def)
  next
    case (Inr st')
    with d have "do_repeat cfg (http e) (connect_ok e) (worker_mqtt s) = (evs0, Inr st')" by simp
    with c have "mqtt_connected st'" by (rule do_repeat_keeps_connected)
    with m Inr show ?thesis by (simp add: task_outcome_def)
  qed
qed

lemma run_every_Inl:
  "every_iteration cfg e s = (evs, Inl ex) \<Longrightarrow> run_every cfg (e # es) s = (evs, Inl ex)"
  by simp

lemma run_every_Inr:
  "every_iteration cfg e s = (evs, Inr s') \<Longrightarrow>
   run_every cfg (e # es) s = (evs @ fst (run_every cfg es s'), snd (run_every cfg es s'))"
  by (simp split: prod.splits)

lemma every_iteration_cases:
  obtains (stop) evs ex where "every_iteration cfg e s = (evs, Inl ex)"
  | (go) evs s' where "every_iteration cfg e s = (evs, Inr s')"
proof -
  obtain evs r where it: "every_iteration cfg e s = (evs, r)"
    by (cases "every_iteration cfg e s")
  show thesis
  proof (cases r)
    case (Inl ex)
    show thesis by (rule stop) (simp add: it Inl)
  next
    case (Inr s')
    show thesis by (rule go) (simp add: it Inr)
  qed
qed

text \<open>
  C5: once connected, the worker never makes another connection attempt, in any run,
  even when the broker goes away: the flag \<open>mqtt_connected\<close> is never reset.
\<close>

theorem connected_never_reconnects:
  assumes "mqtt_connected (worker_mqtt s)"
  shows "filter is_connect (fst (run_every cfg es s)) = []"
  using assms
proof (induction es arbitrary: s)
  case Nil
  then show ?case by simp
next
  case (Cons e es)
  have evs: "filter is_connect (fst (every_iteration cfg e s)) = []"
    using Cons.prems by (simp add: every_iteration_filters do_repeat_connects_connected)
  show ?case
  proof (cases rule: every_iteration_cases [of cfg e s])
    case (stop evs ex)
    with evs show ?thesis by (simp add: run_every_Inl)
  next
    case (go evs s')
    with Cons.prems have "mqtt_connected (worker_mqtt s')"
      by (rule every_iteration_keeps_connected)
    then have "filter is_connect (fst (run_every cfg es s')) = []" by (rule Cons.IH)
    with evs go show ?thesis unfolding run_every_Inr [OF go] by simp
  qed
qed

text \<open>
  C13: with a non-zero interval the loop keeps polling: every tick of a run performs
  exactly one HTTP request to the configured device, with the configured credentials.
\<close>

theorem run_fetches_every_tick:
  assumes "repeat cfg \<noteq> 0"
  shows "filter is_http_get (fst (run_every cfg es s)) =
           replicate (length es)
             (HttpGet (fetch_url (benning_host cfg)) (benning_username cfg) (benning_password cfg))"
proof (induction es arbitrary: s)
  case Nil
  then show ?case by simp
next
  case (Cons e es)
  have evs: "filter is_http_get (fst (every_iteration cfg e s)) =
          [HttpGet (fetch_url (benning_host cfg)) (benning_username cfg) (benning_password cfg)]"
    by (simp add: every_iteration_filters do_repeat_http_gets)
  show ?case
  proof (cases rule: every_iteration_cases [of cfg e s])
    case (stop evs ex)
    then have False using assms by (simp add: every_iteration_eq next_fire_def)
    then show ?thesis ..
  next
    case (go evs s')
    with evs Cons.IH [of s'] show ?thesis unfolding run_every_Inr [OF go] by simp
  qed
qed

text \<open>C12: in every reachable state the next fire time lies on the grid of the start time.\<close>

theorem reachable_on_grid:
  assumes "reachable cfg t0 s"
  shows "\<exists>k::int. next_time s = t0 + of_int k * repeat cfg"
  using assms
proof (induction rule: reachable.induct)
  case (init ok)
  show ?case by (intro exI [of _ 0]) (simp add: worker_init_def split: prod.splits)
next
  case (step s e evs s')
  then obtain k where k: "next_time s = t0 + of_int k * repeat cfg" by blast
  define q where "q = \<lfloor>(clock_after e - next_time s) / repeat cfg\<rfloor> + 1"
  have "next_fire (repeat cfg) (clock_after e) (next_time s) = Inr (next_time s')"
    using step.hyps(2) by (rule every_iteration_Inr_next_fire)
  then have "next_time s' = next_time s + of_int q * repeat cfg"
    unfolding q_def by (rule next_fire_grid)
  also have "\<dots> = t0 + of_int (k + q) * repeat cfg"
    by (simp only: k of_int_add distrib_right add.assoc)
  finally show ?case by blast
qed

text \<open>
  C6: a response with a status other than 200 raises \<open>Error\<close> in the task, and the
  scheduler logs it and goes on with the same connection state: it does not end the
  process.
\<close>

theorem non200_contained:
  assumes "repeat cfg \<noteq> 0" and "http e = HttpResponse code body" and "code \<noteq> 200"
  shows "LogTaskException (AppError body) \<in> set (fst (every_iteration cfg e s)) \<and>
         (\<exists>s'. snd (every_iteration cfg e s) = Inr s' \<and> worker_mqtt s' = worker_mqtt s)"
  using assms
  by (simp add: every_iteration_eq do_repeat_status task_outcome_def next_fire_Inr)

lemma run_every_nonzero:
  assumes "repeat cfg \<noteq> 0"
  shows "\<exists>s'. snd (run_every cfg es s) = Inr s'"
proof (induction es arbitrary: s)
  case Nil
  then show ?case by simp
next
  case (Cons e es)
  show ?case
  proof (cases rule: every_iteration_cases [of cfg e s])
    case (stop evs ex)
    then have False using assms by (simp add: every_iteration_eq next_fire_def)
    then show ?thesis ..
  next
    case (go evs s')
    show ?thesis using Cons.IH [of s'] unfolding run_every_Inr [OF go] by simp
  qed
qed

lemma run_every_zero:
  "repeat cfg = 0 \<Longrightarrow> snd (run_every cfg (e # es) s) = Inl ZeroDivisionError"
  by (simp add: every_iteration_eq next_fire_def split: prod.splits)

section \<open>The order of a pass\<close>

text \<open>
  C33: every pass is strictly sequential: it sleeps, logs and sends the one HTTP request,
  and only then, after the body is parsed (the line count is logged), touches the bus;
  nothing it does afterwards, not even the log record of an exception, sends another
  request.
\<close>

theorem pass_order:
  "\<exists>rest. fst (every_iteration cfg e s) =
     Sleep (max 0 (next_time s - clock_before e)) # LogFetch (fetch_url (benning_host cfg)) #
     HttpGet (fetch_url (benning_host cfg)) (benning_username cfg) (benning_password cfg) # rest \<and>
   filter is_http_get rest = [] \<and>
   (\<forall>k < length rest. is_publish (rest ! k) \<or> is_connect (rest ! k) \<longrightarrow>
      (\<exists>j < k. \<exists>n. rest ! j = LogProcessed n))"
proof -
  obtain rest where r: "fst (do_repeat cfg (http e) (connect_ok e) (worker_mqtt s)) =
      LogFetch (fetch_url (benning_host cfg)) #
      HttpGet (fetch_url (benning_host cfg)) (benning_username cfg) (benning_password cfg) # rest"
    and g: "filter is_http_get rest = []"
    and o: "\<forall>k < length rest. is_publish (rest ! k) \<or> is_connect (rest ! k) \<longrightarrow>
              (\<exists>j < k. \<exists>n. rest ! j = LogProcessed n)"
    using do_repeat_order [of cfg "http e" "connect_ok e" "worker_mqtt s"] by blast
  let ?x = "fst (task_outcome (worker_mqtt s) (snd (do_repeat cfg (http e) (connect_ok e) (worker_mqtt s))))"
  have x: "\<forall>ev \<in> set ?x. \<not> is_publish ev \<and> \<not> is_connect ev \<and> \<not> is_http_get ev"
    by (simp add: task_outcome_def split: sum.splits)
  have "\<forall>k < length (rest @ ?x). is_publish ((rest @ ?x) ! k) \<or> is_connect ((rest @ ?x) ! k) \<longrightarrow>
          (\<exists>j < k. \<exists>n. (rest @ ?x) ! j = LogProcessed n)"
  proof (intro allI impI)
    fix k assume k: "k < length (rest @ ?x)"
      and b: "is_publish ((rest @ ?x) ! k) \<or> is_connect ((rest @ ?x) ! k)"
    show "\<exists>j < k. \<exists>n. (rest @ ?x) ! j = LogProcessed n"
    proof (cases "k < length rest")
      case True
      then have "is_publish (rest ! k) \<or> is_connect (rest ! k)" using b by (simp add: nth_append)
      then obtain j n where j: "j < k" "rest ! j = LogProcessed n" using o True by blast
      then have "(rest @ ?x) ! j = LogProcessed n" using True by (simp add: nth_append)
      with j(1) show ?thesis by blast
    next
      case False
      then have "(rest @ ?x) ! k \<in> set ?x" using k by (simp add: nth_append)
      with x b show ?thesis by blast
    qed
  qed
  moreover have "filter is_http_get (rest @ ?x) = []" using g x by simp
  moreover have "fst (every_iteration cfg e s) =
     Sleep (max 0 (next_time s - clock_before e)) # LogFetch (fetch_url (benning_host cfg)) #
     HttpGet (fetch_url (benning_host cfg)) (benning_username cfg) (benning_password cfg) # (rest @ ?x)"
    unfolding every_iteration_eq fst_conv r by simp
  ultimately show ?thesis by blast
qed

section \<open>Where publications come from\<close>

lemma every_iteration_publish:
  assumes "MqttPublish t p \<in> set (fst (every_iteration cfg e s))"
  shows "\<exists>body ms n. http e = HttpResponse 200 body \<and> parse_body body = Inr (ms, n) \<and>
           t = mqtt_topic cfg \<and> p = metrics_payload ms"
proof -
  have "MqttPublish t p \<in> set (fst (do_repeat cfg (http e) (connect_ok e) (worker_mqtt s)))"
    using assms by (auto simp: every_iteration_eq task_outcome_def split: sum.splits)
  then show ?thesis by (rule do_repeat_publish)
qed

lemma run_every_publish:
  assumes "MqttPublish t p \<in> set (fst (run_every cfg es s))"
  shows "\<exists>e \<in> set es. \<exists>body ms n. http e = HttpResponse 200 body \<and> parse_body body = Inr (ms, n) \<and>
           t = mqtt_topic cfg \<and> p = metrics_payload ms"
  using assms
proof (induction es arbitrary: s)
  case Nil
  then show ?case by simp
next
  case (Cons e es)
  show ?case
  proof (cases rule: every_iteration_cases [of cfg e s])
    case (stop evs ex)
    then have "MqttPublish t p \<in> set (fst (every_iteration cfg e s))"
      using Cons.prems by simp
    then show ?thesis using every_iteration_publish by fastforce
  next
    case (go evs s')
    then have "MqttPublish t p \<in> set (fst (every_iteration cfg e s)) \<or>
               MqttPublish t p \<in> set (fst (run_every cfg es s'))"
      using Cons.prems unfolding run_every_Inr [OF go] by simp
    then show ?thesis using every_iteration_publish Cons.IH by fastforce
  qed
qed

section \<open>The polling rate\<close>

lemma every_iteration_advances:
  assumes d: "0 < repeat cfg" and sl: "sleep_respected e s" and it: "every_iteration cfg e s = (evs, Inr s')"
  shows "next_time s + repeat cfg \<le> next_time s'"
proof -
  let ?d = "repeat cfg" and ?nt = "next_time s" and ?ca = "clock_after e"
  have nt': "next_time s' = ?nt + of_int (\<lfloor>(?ca - ?nt) / ?d\<rfloor> + 1) * ?d"
    using next_fire_grid [OF every_iteration_Inr_next_fire [OF it]] .
  have "?nt \<le> ?ca" using sl by (simp add: sleep_respected_def)
  then have "0 \<le> (?ca - ?nt) / ?d" using d by simp
  then have "0 \<le> \<lfloor>(?ca - ?nt) / ?d\<rfloor>" by simp
  then have "1 * ?d \<le> of_int (\<lfloor>(?ca - ?nt) / ?d\<rfloor> + 1) * ?d"
    using d by (intro mult_right_mono) simp_all
  with nt' show ?thesis by simp
qed

text \<open>
  C30: the worker never polls the device faster than the interval allows: over any run
  of \<open>n\<close> passes whose sleeps behave as \<open>time.sleep\<close> does, \<open>next_time\<close> moves
  forward by at least \<open>n\<close> intervals, so the pass after them wakes no earlier than
  \<open>n\<close> intervals after the first fire time. Missed ticks are never caught up in a burst.
\<close>

theorem run_rate_bound:
  assumes "0 < repeat cfg" and "run_sleeps_respected cfg es s" and "run_every cfg es s = (evs, Inr s')"
  shows "next_time s + of_nat (length es) * repeat cfg \<le> next_time s'"
  using assms(2,3)
proof (induction es arbitrary: s evs)
  case Nil
  then show ?case by simp
next
  case (Cons e es)
  show ?case
  proof (cases rule: every_iteration_cases [of cfg e s])
    case (stop evs1 ex)
    with Cons.prems(2) show ?thesis by simp
  next
    case (go evs1 s1)
    have sl: "sleep_respected e s" and rest: "run_sleeps_respected cfg es s1"
      using Cons.prems(1) go by simp_all
    have "snd (run_every cfg es s1) = Inr s'"
      using Cons.prems(2) unfolding run_every_Inr [OF go] by simp
    then have "run_every cfg es s1 = (fst (run_every cfg es s1), Inr s')"
      by (metis prod.collapse)
    with Cons.IH [OF rest] have "next_time s1 + of_nat (length es) * repeat cfg \<le> next_time s'" .
    moreover have "next_time s + repeat cfg \<le> next_time s1"
      by (rule every_iteration_advances [OF assms(1) sl go])
    ultimately show ?thesis by (simp add: algebra_simps)
  qed
qed

lemma next_fire_negative:
  assumes "d < 0" and "next_fire d now nt = Inr nt'"
  shows "nt' < now"
proof -
  let ?q = "\<lfloor>(now - nt) / d\<rfloor>"
  have "(now - nt) / d < of_int ?q + 1" by linarith
  then have "(of_int ?q + 1) * d < now - nt" using assms(1) by (simp add: divide_less_eq)
  moreover have "nt' = nt + of_int (?q + 1) * d" using next_fire_grid [OF assms(2)] .
  ultimately show ?thesis by (simp add: algebra_simps)
qed

text \<open>
  C35: nothing checks the sign of the configured interval. With a negative
  \<open>repeat\<close> the floor division of line 152 puts \<open>next_time\<close> before the clock, so
  the next pass, on a clock that does not run backwards, sleeps for zero seconds: the
  worker polls the device and the broker in a busy loop.
\<close>

theorem negative_interval_busy_loop:
  assumes "repeat cfg < 0" and "every_iteration cfg e s = (evs, Inr s')"
    and "clock_after e \<le> clock_before e'"
  shows "hd (fst (every_iteration cfg e' s')) = Sleep 0"
proof -
  have "next_time s' < clock_after e"
    using next_fire_negative [OF assms(1) every_iteration_Inr_next_fire [OF assms(2)]] .
  with assms(3) show ?thesis by (simp add: every_iteration_eq)
qed

section \<open>Examples\<close>

theorem next_fire_least_witness:
  "(10::rat) < 15 \<and> (\<exists>k::int. (15::rat) = 0 + of_int k * 5) \<and>
   \<not> (\<exists>k::int. (10::rat) < 0 + of_int k * 5 \<and> 0 + of_int k * 5 < (15::rat))"
  using next_fire_least [of 5 10 0 15] by (simp add: next_fire_def not_less [symmetric])

theorem every_iteration_continues_witness:
  "\<exists>s'. snd (every_iteration example_config (example_tick HttpRequestError) example_state) = Inr s' \<and>
     next_fire (repeat example_config) (clock_after (example_tick HttpRequestError))
       (next_time example_state) = Inr (next_time s')"
  by (rule every_iteration_continues) simp

theorem zero_interval_crashes_witness:
  "run_every (example_config\<lparr>repeat := 0\<rparr>) [example_tick HttpConnectionError] example_state =
     (fst (every_iteration (example_config\<lparr>repeat := 0\<rparr>) (example_tick HttpConnectionError)
        example_state), Inl ZeroDivisionError)"
  by (rule zero_interval_crashes) simp

theorem tick_publishes_parsed_metrics_witness:
  "filter is_publish (fst (every_iteration example_config
     (example_tick (HttpResponse 200 (''1;D;F;2;x;1.000000;Hz'' @ [LF]))) example_state)) =
   [MqttPublish (mqtt_topic example_config) (metrics_payload
      [\<lparr>metric_id = ''1'', metric_descriptor = ''D'', metric_type = ''F'',
        metric_value = Fin 2, metric_description = ''x'', metric_unit = ''Hz'',
        metric_unit_zabbix = ''Hz''\<rparr>])]"
  by (rule tick_publishes_parsed_metrics [OF _ _ parse_body_example]) simp_all

theorem tick_disconnected_skips_publish_witness:
  "filter is_publish (fst (every_iteration example_config
     (example_tick (HttpResponse 200 (''1;D;F;2;x;1.000000;Hz'' @ [LF])))
     (example_state\<lparr>worker_mqtt := \<lparr>mqtt_connected = False, mqtt_clients = 1\<rparr>\<rparr>))) = [] \<and>
   filter is_connect (fst (every_iteration example_config
     (example_tick (HttpResponse 200 (''1;D;F;2;x;1.000000;Hz'' @ [LF])))
     (example_state\<lparr>worker_mqtt := \<lparr>mqtt_connected = False, mqtt_clients = 1\<rparr>\<rparr>))) =
     [MqttConnect (mqtt_host example_config) 1883 60] \<and>
   LogPublishWarning \<in> set (fst (every_iteration example_config
     (example_tick (HttpResponse 200 (''1;D;F;2;x;1.000000;Hz'' @ [LF])))
     (example_state\<lparr>worker_mqtt := \<lparr>mqtt_connected = False, mqtt_clients = 1\<rparr>\<rparr>)))"
  by (rule tick_disconnected_skips_publish [OF _ _ parse_body_example]) simp_all

theorem connected_never_reconnects_witness:
  "filter is_connect (fst (run_every example_config
     [example_tick HttpConnectionError, example_tick (HttpResponse 500 ''busy'')] example_state)) = []"
  by (rule connected_never_reconnects) simp

theorem run_fetches_every_tick_witness:
  "filter is_http_get (fst (run_every example_config
     [example_tick HttpConnectionError, example_tick (HttpResponse 500 ''busy'')] example_state)) =
   replicate (length [example_tick HttpConnectionError, example_tick (HttpResponse 500 ''busy'')])
     (HttpGet (fetch_url (benning_host example_config)) (benning_username example_config)
        (benning_password example_config))"
  by (rule run_fetches_every_tick) simp

lemma first_tick_example:
  "every_iteration example_config (example_tick HttpConnectionError)
     (snd (worker_init example_config True 0)) =
   (fst (every_iteration example_config (example_tick HttpConnectionError)
      (snd (worker_init example_config True 0))),
    Inr \<lparr>worker_mqtt = \<lparr>mqtt_connected = True, mqtt_clients = 1\<rparr>, next_time = 15\<rparr>)"
  by (simp add: every_iteration_eq worker_init_def mqtt_connect_def do_repeat_conn_error
      task_outcome_def next_fire_def)

theorem reachable_on_grid_witness:
  "\<exists>k::int. next_time \<lparr>worker_mqtt = \<lparr>mqtt_connected = True, mqtt_clients = 1\<rparr>, next_time = 15\<rparr>
     = 0 + of_int k * repeat example_config"
  by (rule reachable_on_grid [OF reachable.step [OF reachable.init first_tick_example]])

theorem non200_contained_witness:
  "LogTaskException (AppError ''busy'') \<in>
     set (fst (every_iteration example_config (example_tick (HttpResponse 500 ''busy'')) example_state)) \<and>
   (\<exists>s'. snd (every_iteration example_config (example_tick (HttpResponse 500 ''busy'')) example_state)
      = Inr s' \<and> worker_mqtt s' = worker_mqtt example_state)"
  by (rule non200_contained [where code = 500]) simp_all

theorem run_rate_bound_witness:
  "\<exists>evs s'. run_every example_config [example_tick HttpConnectionError,
       \<lparr>clock_before = 12, http = HttpConnectionError, connect_ok = True, clock_after = 16\<rparr>] example_state =
       (evs, Inr s') \<and> next_time example_state + of_nat 2 * repeat example_config \<le> next_time s'"
proof -
  let ?es = "[example_tick HttpConnectionError,
       \<lparr>clock_before = 12, http = HttpConnectionError, connect_ok = True, clock_after = 16\<rparr>]"
  obtain s' where r: "snd (run_every example_config ?es example_state) = Inr s'"
    using run_every_nonzero [of example_config ?es example_state] by auto
  then have eq: "run_every example_config ?es example_state = (fst (run_every example_config ?es example_state), Inr s')"
    by (metis prod.collapse)
  have ok: "run_sleeps_respected example_config ?es example_state"
    by (simp add: sleep_respected_def every_iteration_eq do_repeat_conn_error task_outcome_def next_fire_def)
  show ?thesis
    using run_rate_bound [OF _ ok eq] eq by auto
qed

theorem negative_interval_busy_loop_witness:
  "hd (fst (every_iteration (example_config\<lparr>repeat := -5\<rparr>)
     \<lparr>clock_before = 10, http = HttpConnectionError, connect_ok = True, clock_after = 11\<rparr>
     \<lparr>worker_mqtt = \<lparr>mqtt_connected = True, mqtt_clients = 1\<rparr>, next_time = 5\<rparr>)) = Sleep 0"
proof -
  have "every_iteration (example_config\<lparr>repeat := -5\<rparr>) (example_tick HttpConnectionError) example_state =
        (fst (every_iteration (example_config\<lparr>repeat := -5\<rparr>) (example_tick HttpConnectionError) example_state),
         Inr \<lparr>worker_mqtt = \<lparr>mqtt_connected = True, mqtt_clients = 1\<rparr>, next_time = 5\<rparr>)"
    by (simp add: every_iteration_eq do_repeat_conn_error task_outcome_def next_fire_def)
  then show ?thesis
    using negative_interval_busy_loop [of "(example_config\<lparr>repeat := -5\<rparr>)"] by simp
qed

theorem pass_order_witness:
  "\<exists>rest. fst (every_iteration example_config
     (example_tick (HttpResponse 200 (''1;D;F;2;x;1.000000;Hz'' @ [LF])))
     (example_state\<lparr>worker_mqtt := \<lparr>mqtt_connected = False, mqtt_clients = 1\<rparr>\<rparr>)) =
     Sleep 0 # LogFetch (fetch_url ''192.168.0.10'') # HttpGet (fetch_url ''192.168.0.10'') ''admin'' ''secret'' # rest \<and>
   filter is_http_get rest = [] \<and>
   (\<forall>k < length rest. is_publish (rest ! k) \<or> is_connect (rest ! k) \<longrightarrow>
      (\<exists>j < k. \<exists>n. rest ! j = LogProcessed n))"
  using pass_order [of example_config "example_tick (HttpResponse 200 (''1;D;F;2;x;1.000000;Hz'' @ [LF]))"
      "example_state\<lparr>worker_mqtt := \<lparr>mqtt_connected = False, mqtt_clients = 1\<rparr>\<rparr>"]
  by simp

end
