(* ===== verification/Startup.thy ===== *)
theory Startup
  imports Scheduler
begin

text \<open>
  The process around the worker (\<open>src/app.py\<close> lines 43 to 113 and 223 to 236):
  the command line (\<open>parse_arguments\<close>), the default configuration path
  (\<open>find_default_config_path\<close>, with \<open>os.path.dirname\<close>, \<open>os.path.basename\<close> and
  \<open>os.path.join\<close> as \<open>posixpath\<close> computes them), the log level and handler choice
  of the \<open>__main__\<close> block and \<open>set_up_logging\<close>, the level of each log record
  and which records the handler shows, \<open>read_config\<close> with its exit
  status 254, and the whole process: start-up, then the worker's constructor and loop.
  The outside world is an input (\<open>startup_env\<close>): the script's absolute path, what
  argparse parsed, whether standard input is a terminal, the platform, and what loading
  each path gives (no file, a YAML error, or a configuration).
\<close>

section \<open>Paths\<close>

text \<open>\<open>posixpath.dirname\<close>: the part up to the last slash, trailing slashes removed
  unless it is made of slashes only.\<close>

definition py_dirname :: "string \<Rightarrow> string" where
  "py_dirname p =
     (let head = take (length p - length (takeWhile (\<lambda>c. c \<noteq> CHR ''/'') (rev p))) p
      in if head \<noteq> [] \<and> (\<exists>c \<in> set head. c \<noteq> CHR ''/'')
         then rev (dropWhile (\<lambda>c. c = CHR ''/'') (rev head)) else head)"

text \<open>\<open>posixpath.basename\<close>: the part after the last slash.\<close>

definition py_basename :: "string \<Rightarrow> string" where
  "py_basename p = rev (takeWhile (\<lambda>c. c \<noteq> CHR ''/'') (rev p))"

text \<open>\<open>posixpath.join(a, b)\<close>: an absolute \<open>b\<close> replaces \<open>a\<close>; otherwise a slash is
  put between them unless \<open>a\<close> is empty or already ends with one.\<close>

definition py_path_join :: "string \<Rightarrow> string \<Rightarrow> string" where
  "py_path_join a b =
     (if take 1 b = ''/'' then b
      else if a = [] \<or> last a = CHR ''/'' then a @ b else a @ ''/'' @ b)"

text \<open>Lines 60 to 62; \<open>script\<close> is \<open>os.path.abspath(__file__)\<close>.\<close>

definition find_default_config_path :: "string \<Rightarrow> string \<Rightarrow> string" where
  "find_default_config_path script config_file_name =
     py_path_join (py_dirname script) config_file_name"

section \<open>Command line and log level\<close>

text \<open>The levels of the \<open>logging\<close> module (line 43 starts with \<open>INFO\<close>).\<close>

definition log_DEBUG :: int where "log_DEBUG = 10"
definition log_INFO :: int where "log_INFO = 20"

text \<open>What argparse returns: the \<open>-d\<close> flag and the \<open>-c\<close> option, if given.\<close>

record cli_args =
  arg_debug :: bool
  arg_config :: "string option"

text \<open>Lines 48 to 57: the new global \<open>loglevel\<close> and \<open>args.config\<close>.\<close>

definition parse_arguments :: "string \<Rightarrow> cli_args \<Rightarrow> int \<Rightarrow> int \<times> string" where
  "parse_arguments script cli loglevel =
     (if arg_debug cli then log_DEBUG else loglevel,
      case arg_config cli of Some p \<Rightarrow> p
      | None \<Rightarrow> find_default_config_path script ''config.yaml'')"

text \<open>Lines 228 to 232: \<open>log_to_foreground\<close> and the clamp of the level on a terminal.\<close>

definition main_log_choice :: "bool \<Rightarrow> int \<Rightarrow> bool \<times> int" where
  "main_log_choice isatty loglevel =
     (if isatty then (True, if loglevel \<ge> log_INFO then log_INFO else loglevel)
      else (True, loglevel))"

section \<open>Logging set-up\<close>

datatype log_setup =
    Console int
  | Syslog int string string

text \<open>
  Lines 75 to 113: \<open>basicConfig\<close> on the console, or a syslog handler on the platform's
  socket with the program name (by default the script's file name).
\<close>

definition set_up_logging :: "string \<Rightarrow> string \<Rightarrow> int \<Rightarrow> bool \<Rightarrow> string option \<Rightarrow> log_setup" where
  "set_up_logging platform script loglevel log_to_foreground program_name =
     (if log_to_foreground then Console loglevel
      else Syslog loglevel (if platform = ''darwin'' then ''/var/run/syslog'' else ''/dev/log'')
             (case program_name of Some n \<Rightarrow> n | None \<Rightarrow> py_basename script))"

text \<open>
  The level of each log record, from the call that emits it: \<open>logging.info\<close> on
  lines 66, 157, 211 and 234, \<open>logging.warning\<close> on line 217, \<open>logging.error\<close> on
  lines 68, 133 and 161, and \<open>logging.exception\<close> (level \<open>ERROR\<close>) on line 150. The
  module makes no \<open>logging.debug\<close> call. A traceback of an exception that ends the
  process is printed by the interpreter, not logged.
\<close>

definition log_WARNING :: int where "log_WARNING = 30"
definition log_ERROR :: int where "log_ERROR = 40"

fun event_level :: "event \<Rightarrow> int option" where
  "event_level (LogFetch u) = Some log_INFO"
| "event_level LogFetchError = Some log_ERROR"
| "event_level (LogProcessed n) = Some log_INFO"
| "event_level LogMqttConnectError = Some log_ERROR"
| "event_level LogPublishWarning = Some log_WARNING"
| "event_level (LogTaskException ex) = Some log_ERROR"
| "event_level e = None"

text \<open>
  What the handler shows: \<open>basicConfig(level=loglevel)\<close> (line 77), like
  \<open>rootLogger.setLevel(loglevel)\<close> (line 103), drops the records below the level.
\<close>

definition setup_level :: "log_setup \<Rightarrow> int" where
  "setup_level s = (case s of Console l \<Rightarrow> l | Syslog l sock name \<Rightarrow> l)"

section \<open>Reading the configuration\<close>

datatype load_outcome = NoFile | YamlError | Loaded config

datatype proc_event =
    LogReadingConfig string
  | LogConfigMissing string
  | LogStarting
  | Traceback py_exc
  | WorkerEvent event

text \<open>
  Lines 65 to 72: a missing file is logged and ends the process with status 254; a
  YAML error propagates (the interpreter prints the traceback and exits with 1).
\<close>

definition read_config ::
  "(string \<Rightarrow> load_outcome) \<Rightarrow> string \<Rightarrow> proc_event list \<times> (int + config)" where
  "read_config fs path =
     (case fs path of
        NoFile \<Rightarrow> ([LogReadingConfig path, LogConfigMissing path], Inl 254)
      | YamlError \<Rightarrow> ([LogReadingConfig path, Traceback YAMLError], Inl 1)
      | Loaded cfg \<Rightarrow> ([LogReadingConfig path], Inr cfg))"

fun record_level :: "proc_event \<Rightarrow> int option" where
  "record_level (LogReadingConfig p) = Some log_INFO"
| "record_level (LogConfigMissing p) = Some log_ERROR"
| "record_level LogStarting = Some log_INFO"
| "record_level (Traceback ex) = None"
| "record_level (WorkerEvent e) = event_level e"

definition shown_records :: "log_setup \<Rightarrow> proc_event list \<Rightarrow> proc_event list" where
  "shown_records s evs =
     filter (\<lambda>e. case record_level e of Some l \<Rightarrow> setup_level s \<le> l | None \<Rightarrow> False) evs"

section \<open>The process\<close>

record startup_env =
  script_path :: string
  cli :: cli_args
  stdin_isatty :: bool
  platform :: string
  files :: "string \<Rightarrow> load_outcome"

text \<open>Lines 226 to 235, up to the configuration: the logging set-up and the outcome.\<close>

definition startup :: "startup_env \<Rightarrow> log_setup \<times> proc_event list \<times> (int + config)" where
  "startup env =
     (let (loglevel, path) = parse_arguments (script_path env) (cli env) log_INFO;
          (fg, loglevel') = main_log_choice (stdin_isatty env) loglevel;
          setup = set_up_logging (platform env) (script_path env) loglevel' fg None;
          (evs, r) = read_config (files env) path
      in (setup, LogStarting # evs, r))"

text \<open>The path the configuration is read from.\<close>

definition config_path :: "startup_env \<Rightarrow> string" where
  "config_path env = snd (parse_arguments (script_path env) (cli env) log_INFO)"

datatype proc_status = Exited int | Running sched_state

text \<open>
  Line 236 with the worker: \<open>main()\<close> builds the worker, whose constructor connects
  and enters \<open>every\<close>; after the given passes the process is still running, or an
  exception left the loop and the interpreter exited with status 1.
\<close>

definition run_process ::
  "startup_env \<Rightarrow> bool \<Rightarrow> rat \<Rightarrow> tick_env list \<Rightarrow> proc_event list \<times> proc_status" where
  "run_process env ok t0 ticks =
     (case startup env of
        (_, evs, Inl code) \<Rightarrow> (evs, Exited code)
      | (_, evs, Inr cfg) \<Rightarrow>
          (let (evs1, s) = worker_init cfg ok t0;
               (evs2, r) = run_every cfg ticks s
           in case r of
                Inl ex \<Rightarrow> (evs @ map WorkerEvent (evs1 @ evs2) @ [Traceback ex], Exited 1)
              | Inr s' \<Rightarrow> (evs @ map WorkerEvent (evs1 @ evs2), Running s')))"

text \<open>An example environment: the script in \<open>/opt/benning\<close>, no option given.\<close>

abbreviation example_env :: startup_env where
  "example_env \<equiv> \<lparr>script_path = ''/opt/benning/app.py'',
     cli = \<lparr>arg_debug = False, arg_config = None\<rparr>, stdin_isatty = True, platform = ''linux'',
     files = (\<lambda>p. if p = ''/opt/benning/config.yaml'' then Loaded example_config else NoFile)\<rparr>"

section \<open>The default configuration path\<close>

lemma dirname_head:
  assumes "CHR ''/'' \<notin> set n" and "x = [] \<or> last x = CHR ''/''"
  shows "take (length (x @ n) - length (takeWhile (\<lambda>c. c \<noteq> CHR ''/'') (rev (x @ n)))) (x @ n) = x"
proof -
  have "takeWhile (\<lambda>c. c \<noteq> CHR ''/'') (rev x) = []"
    using assms(2) by (cases x rule: rev_cases) auto
  moreover have "takeWhile (\<lambda>c. c \<noteq> CHR ''/'') (rev n @ rev x) =
                   rev n @ takeWhile (\<lambda>c. c \<noteq> CHR ''/'') (rev x)"
    using assms(1) by (intro takeWhile_append2) auto
  ultimately show ?thesis by simp
qed

lemma py_dirname_append:
  assumes "CHR ''/'' \<notin> set n" and "x = [] \<or> last x = CHR ''/''"
  shows "py_dirname (x @ n) =
           (if x \<noteq> [] \<and> (\<exists>c \<in> set x. c \<noteq> CHR ''/'') then rev (dropWhile (\<lambda>c. c = CHR ''/'') (rev x))
            else x)"
  using dirname_head [OF assms] by (simp add: py_dirname_def Let_def)

lemma py_dirname_shape:
  "py_dirname s = [] \<or> (\<forall>c \<in> set (py_dirname s). c = CHR ''/'') \<or> last (py_dirname s) \<noteq> CHR ''/''"
proof -
  define head where "head = take (length s - length (takeWhile (\<lambda>c. c \<noteq> CHR ''/'') (rev s))) s"
  have d: "py_dirname s = (if head \<noteq> [] \<and> (\<exists>c \<in> set head. c \<noteq> CHR ''/'')
                           then rev (dropWhile (\<lambda>c. c = CHR ''/'') (rev head)) else head)"
    unfolding py_dirname_def head_def Let_def ..
  show ?thesis
  proof (cases "head \<noteq> [] \<and> (\<exists>c \<in> set head. c \<noteq> CHR ''/'')")
    case True
    define t where "t = dropWhile (\<lambda>c. c = CHR ''/'') (rev head)"
    from True have "\<not> (\<forall>c \<in> set (rev head). c = CHR ''/'')" by simp
    then have t: "t \<noteq> []" unfolding t_def dropWhile_eq_Nil_conv .
    then have "hd t \<noteq> CHR ''/''" unfolding t_def by (rule hd_dropWhile)
    moreover have "py_dirname s = rev t"
      unfolding t_def using d if_P [OF True] by (rule trans)
    ultimately show ?thesis using t by (simp add: last_rev)
  next
    case False
    have "py_dirname s = head" using d if_not_P [OF False] by (rule trans)
    with False show ?thesis by blast
  qed
qed

text \<open>
  C28: the default configuration path names a file in the script's own directory:
  \<open>dirname(join(dirname(script), name)) = dirname(script)\<close> for every file name
  without a slash, whatever the shape of the script's path.
\<close>

theorem default_config_same_dir:
  assumes "CHR ''/'' \<notin> set n"
  shows "py_dirname (find_default_config_path s n) = py_dirname s"
proof -
  let ?d = "py_dirname s"
  have n: "take 1 n \<noteq> ''/''" using assms by (cases n) auto
  show ?thesis
  proof (cases "?d = []")
    case True
    then have j: "find_default_config_path s n = [] @ n"
      using n by (simp add: find_default_config_path_def py_path_join_def)
    have "py_dirname ([] @ n) = []" using py_dirname_append [OF assms, of "[]"] by simp
    with j True show ?thesis by simp
  next
    case ne: False
    show ?thesis
    proof (cases "\<forall>c \<in> set ?d. c = CHR ''/''")
      case True
      with ne have l: "last ?d = CHR ''/''" by simp
      then have j: "find_default_config_path s n = ?d @ n"
        using n by (simp add: find_default_config_path_def py_path_join_def)
      have "py_dirname (?d @ n) = ?d"
        using py_dirname_append [OF assms, of ?d] l True by simp
      with j show ?thesis by simp
    next
      case False
      with ne py_dirname_shape [of s] have l: "last ?d \<noteq> CHR ''/''" by blast
      then have j: "find_default_config_path s n = (?d @ ''/'') @ n"
        using n ne by (simp add: find_default_config_path_def py_path_join_def)
      have "py_dirname ((?d @ ''/'') @ n) = rev (dropWhile (\<lambda>c. c = CHR ''/'') (rev (?d @ ''/'')))"
        using py_dirname_append [OF assms, of "?d @ ''/''"] False by auto
      also have "\<dots> = ?d" using ne l by (cases ?d rule: rev_cases) auto
      finally show ?thesis using j by simp
    qed
  qed
qed


section \<open>Start-up and the process\<close>

lemma startup_eq:
  "startup env =
     (Console (if arg_debug (cli env) then log_DEBUG else log_INFO),
      LogStarting # fst (read_config (files env) (config_path env)),
      snd (read_config (files env) (config_path env)))"
  by (simp add: startup_def config_path_def parse_arguments_def main_log_choice_def
      set_up_logging_def log_DEBUG_def log_INFO_def split: prod.splits)

lemma record_level_INFO: "record_level e = Some l \<Longrightarrow> log_INFO \<le> l"
proof (cases e)
  case (WorkerEvent ev)
  then show "record_level e = Some l \<Longrightarrow> log_INFO \<le> l"
    by (cases ev) (auto simp: log_INFO_def log_WARNING_def log_ERROR_def)
qed (auto simp: log_INFO_def log_ERROR_def)

text \<open>
  C24: start-up always logs to the console, at \<open>DEBUG\<close> with \<open>-d\<close> and at
  \<open>INFO\<close> otherwise, whether or not standard input is a terminal: the syslog branch
  of \<open>set_up_logging\<close> is unreachable and the clamp of line 231 never changes the level.
  Either way the console shows every record the module emits, since none is below
  \<open>INFO\<close>: \<open>-d\<close> changes nothing of the program's own log output.
\<close>

theorem startup_console_logging:
  "fst (startup env) = Console (if arg_debug (cli env) then log_DEBUG else log_INFO) \<and>
   shown_records (fst (startup env)) evs = filter (\<lambda>e. record_level e \<noteq> None) evs"
proof
  show s: "fst (startup env) = Console (if arg_debug (cli env) then log_DEBUG else log_INFO)"
    by (simp add: startup_eq)
  have "setup_level (fst (startup env)) \<le> log_INFO"
    unfolding s by (simp add: setup_level_def log_DEBUG_def log_INFO_def)
  then show "shown_records (fst (startup env)) evs = filter (\<lambda>e. record_level e \<noteq> None) evs"
    unfolding shown_records_def
    by (intro filter_cong) (auto dest: record_level_INFO split: option.split)
qed

text \<open>
  C25: a missing configuration file ends the process with status 254 after two log
  records, before the worker is built: no request, no connection.
\<close>

theorem missing_config_exits:
  assumes "files env (config_path env) = NoFile"
  shows "run_process env ok t0 ticks =
           ([LogStarting, LogReadingConfig (config_path env), LogConfigMissing (config_path env)],
            Exited 254)"
  using assms by (simp add: run_process_def startup_eq read_config_def)

text \<open>
  C29: a configuration file that is no valid YAML ends the process with status 1 and a
  traceback, before the worker is built.
\<close>

theorem yaml_error_exits:
  assumes "files env (config_path env) = YamlError"
  shows "run_process env ok t0 ticks =
           ([LogStarting, LogReadingConfig (config_path env), Traceback YAMLError], Exited 1)"
  using assms by (simp add: run_process_def startup_eq read_config_def)

text \<open>
  C26: with a configuration whose interval is not zero the process never exits: after
  any finite sequence of passes, whatever the device, the network, the broker and the
  clock do, the worker is still in its loop.
\<close>

theorem process_keeps_running:
  assumes "files env (config_path env) = Loaded cfg" and "repeat cfg \<noteq> 0"
  shows "\<exists>s. snd (run_process env ok t0 ticks) = Running s"
proof -
  obtain evs1 s where i: "worker_init cfg ok t0 = (evs1, s)" by fastforce
  obtain s' where "snd (run_every cfg ticks s) = Inr s'"
    using run_every_nonzero [OF assms(2)] by blast
  then obtain evs2 where "run_every cfg ticks s = (evs2, Inr s')"
    by (cases "run_every cfg ticks s") simp
  with i assms(1) show ?thesis by (simp add: run_process_def startup_eq read_config_def)
qed

text \<open>
  C27: with a zero interval the process exits with status 1 after its first pass.
\<close>

theorem process_zero_interval_exits:
  assumes "files env (config_path env) = Loaded cfg" and "repeat cfg = 0"
  shows "snd (run_process env ok t0 (e # es)) = Exited 1"
proof -
  obtain evs1 s where i: "worker_init cfg ok t0 = (evs1, s)" by fastforce
  obtain evs2 where "run_every cfg (e # es) s = (evs2, Inl ZeroDivisionError)"
    using run_every_zero [OF assms(2), of e es s] by (cases "run_every cfg (e # es) s") simp
  with i assms(1) show ?thesis by (simp add: run_process_def startup_eq read_config_def)
qed

section \<open>Where the publications of the process come from\<close>

lemma run_process_publish:
  assumes "WorkerEvent (MqttPublish t p) \<in> set (fst (run_process env ok t0 ticks))"
  shows "\<exists>cfg. files env (config_path env) = Loaded cfg \<and>
           (\<exists>e \<in> set ticks. \<exists>body ms n. http e = HttpResponse 200 body \<and> parse_body body = Inr (ms, n) \<and>
              t = mqtt_topic cfg \<and> p = metrics_payload ms)"
proof (cases "files env (config_path env)")
  case (Loaded cfg)
  obtain evs1 s where i: "worker_init cfg ok t0 = (evs1, s)" by fastforce
  have c: "MqttPublish t p \<notin> set evs1"
    using i by (auto simp: worker_init_def mqtt_connect_def split: prod.splits if_splits)
  have "MqttPublish t p \<in> set (fst (run_every cfg ticks s))"
    using assms c i Loaded
    by (auto simp: run_process_def startup_eq read_config_def split: prod.splits sum.splits)
  then show ?thesis using Loaded run_every_publish by blast
qed (use assms in \<open>simp_all add: run_process_def startup_eq read_config_def\<close>)

section \<open>Examples\<close>

lemma example_env_path:
  "config_path \<lparr>script_path = ''/opt/benning/app.py'', cli = \<lparr>arg_debug = False, arg_config = None\<rparr>,
     stdin_isatty = b, platform = pl, files = f\<rparr> = ''/opt/benning/config.yaml''"
  by (simp add: config_path_def parse_arguments_def find_default_config_path_def
      py_dirname_def py_path_join_def)

theorem missing_config_exits_witness:
  "run_process (example_env\<lparr>files := \<lambda>p. NoFile\<rparr>) True 0 [] =
     ([LogStarting, LogReadingConfig ''/opt/benning/config.yaml'',
       LogConfigMissing ''/opt/benning/config.yaml''], Exited 254)"
  using missing_config_exits [of "example_env\<lparr>files := \<lambda>p. NoFile\<rparr>" True 0 "[]"]
  by (simp add: example_env_path)

theorem process_keeps_running_witness:
  "\<exists>s. snd (run_process example_env True 0 [example_tick HttpConnectionError]) = Running s"
  by (rule process_keeps_running [where cfg = example_config]) (simp_all add: example_env_path)

theorem process_zero_interval_exits_witness:
  "snd (run_process (example_env\<lparr>files := \<lambda>p. Loaded (example_config\<lparr>repeat := 0\<rparr>)\<rparr>) True 0
     [example_tick HttpConnectionError]) = Exited 1"
  by (rule process_zero_interval_exits [where cfg = "example_config\<lparr>repeat := 0\<rparr>"]) simp_all

theorem yaml_error_exits_witness:
  "run_process (example_env\<lparr>files := \<lambda>p. YamlError\<rparr>) True 0 [] =
     ([LogStarting, LogReadingConfig ''/opt/benning/config.yaml'', Traceback YAMLError], Exited 1)"
  using yaml_error_exits [of "example_env\<lparr>files := \<lambda>p. YamlError\<rparr>" True 0 "[]"]
  by (simp add: example_env_path)

theorem default_config_same_dir_witness:
  "py_dirname (find_default_config_path ''/opt/benning/app.py'' ''config.yaml'') =
     py_dirname ''/opt/benning/app.py''"
  by (rule default_config_same_dir) simp

end
