(* ===== verification/Json_Decode.thy ===== *)
theory Json_Decode
  imports Json_Payload
begin

text \<open>
  What a subscriber of the topic does with the payload: \<open>json.loads\<close>, as the C
  scanner of CPython's \<open>_json.c\<close> reads a text (\<open>scan_once_unicode\<close>,
  \<open>_parse_array_unicode\<close>, \<open>_parse_object_unicode\<close>, \<open>_match_number_unicode\<close>, with
  \<open>py_scanstring\<close> of \<open>Json_Payload\<close> for strings). Objects are read as their list
  of pairs in text order (\<open>object_pairs_hook\<close>). The model's \<open>json\<close> type has no
  integers, \<open>true\<close>, \<open>false\<close> or \<open>null\<close>: the decoder fails on them, as the
  payload never holds one. Its main lemma is that decoding the payload gives back
  exactly the JSON value of the metrics the worker parsed; the root theory composes it
  with the process.
\<close>

section \<open>The scanner\<close>

text \<open>\<open>WHITESPACE = r'[ \t\n\r]*'\<close> of \<open>json.decoder\<close>.\<close>

definition is_ws :: "char \<Rightarrow> bool" where
  "is_ws c \<longleftrightarrow> c = CHR '' '' \<or> c = CHR 0x09 \<or> c = CHR 0x0A \<or> c = CHR 0x0D"

definition skip_ws :: "string \<Rightarrow> string" where
  "skip_ws s = dropWhile is_ws s"

text \<open>
  \<open>_match_number_unicode\<close>: an optional minus, then \<open>0\<close> or a digit 1 to 9 and
  more digits (\<open>match_int\<close>); a point followed by at least one digit
  (\<open>match_frac\<close>); an \<open>e\<close> or \<open>E\<close>, an optional sign and at least one digit,
  or nothing (backtracking) when no digit follows (\<open>match_exp\<close>).
\<close>

definition match_int :: "string \<Rightarrow> string option" where
  "match_int s =
     (let sg = (if take 1 s = ''-'' then ''-'' else []) in
      case drop (length sg) s of
        [] \<Rightarrow> None
      | c # r \<Rightarrow>
          if c = CHR ''0'' then Some (sg @ [c])
          else if is_digit c then Some (sg @ c # takeWhile is_digit r) else None)"

definition match_frac :: "string \<Rightarrow> string" where
  "match_frac s =
     (case s of
        c # d # r \<Rightarrow> if c = CHR ''.'' \<and> is_digit d then c # d # takeWhile is_digit r else []
      | _ \<Rightarrow> [])"

definition match_exp :: "string \<Rightarrow> string" where
  "match_exp s =
     (case s of
        c # r \<Rightarrow>
          if c = CHR ''e'' \<or> c = CHR ''E'' then
            (let sg = (if take 1 r = ''-'' \<or> take 1 r = ''+'' then take 1 r else []);
                 ds = takeWhile is_digit (drop (length sg) r)
             in if ds = [] then [] else c # sg @ ds)
          else []
      | [] \<Rightarrow> [])"

text \<open>
  A value that is not a string, an array or an object: the constants \<open>NaN\<close>,
  \<open>Infinity\<close> and \<open>-Infinity\<close> (\<open>parse_constant\<close> is \<open>float\<close>), or a number,
  which with a fraction or an exponent is \<open>float(numstr)\<close>; an integer is outside the
  model's \<open>json\<close> type.
\<close>

definition scan_number :: "string \<Rightarrow> (json \<times> string) option" where
  "scan_number s =
     (if take 3 s = ''NaN'' then Some (JFloat NaN, drop 3 s)
      else if take 8 s = ''Infinity'' then Some (JFloat (Inf False), drop 8 s)
      else if take 9 s = ''-Infinity'' then Some (JFloat (Inf True), drop 9 s)
      else Option.bind (match_int s) (\<lambda>ip.
        let s1 = drop (length ip) s; fp = match_frac s1; s2 = drop (length fp) s1;
            ep = match_exp s2
        in if fp = [] \<and> ep = [] then None
           else case float_of_str (ip @ fp @ ep) of
                  Inr v \<Rightarrow> Some (JFloat v, drop (length ep) s2)
                | Inl _ \<Rightarrow> None))"

text \<open>
  The scanner's three entry points, one recursive function over a mode: a value
  (\<open>scan_once_unicode\<close>), the elements of an array after its \<open>[\<close>
  (\<open>_parse_array_unicode\<close>, the elements read so far in reverse) and the members of
  an object after its \<open>{\<close> (\<open>_parse_object_unicode\<close>). Whitespace is skipped where
  the C code skips it. On a text that does not end it need not return, hence
  \<open>partial_function (option)\<close>.
\<close>

datatype scan_mode = PValue | PElems "json list" | PMembers "(string \<times> json) list"

partial_function (option) json_scan :: "scan_mode \<Rightarrow> string \<Rightarrow> (json \<times> string) option" where
  "json_scan m s =
     (case m of
        PValue \<Rightarrow>
          (case skip_ws s of
             [] \<Rightarrow> None
           | c # r \<Rightarrow>
               if c = dquote then Option.bind (scan_string r) (\<lambda>(t, r'). Some (JString t, r'))
               else if c = CHR ''['' then
                 (case skip_ws r of
                    d # r' \<Rightarrow> if d = CHR '']'' then Some (JArray [], r') else json_scan (PElems []) r
                  | [] \<Rightarrow> None)
               else if c = CHR ''{'' then
                 (case skip_ws r of
                    d # r' \<Rightarrow> if d = CHR ''}'' then Some (JObject [], r') else json_scan (PMembers []) r
                  | [] \<Rightarrow> None)
               else scan_number (c # r))
      | PElems acc \<Rightarrow>
          Option.bind (json_scan PValue s) (\<lambda>(v, r).
            case skip_ws r of
              d # r' \<Rightarrow>
                if d = CHR '']'' then Some (JArray (rev (v # acc)), r')
                else if d = CHR '','' then json_scan (PElems (v # acc)) r' else None
            | [] \<Rightarrow> None)
      | PMembers acc \<Rightarrow>
          (case skip_ws s of
             c # r \<Rightarrow>
               if c \<noteq> dquote then None
               else Option.bind (scan_string r) (\<lambda>(k, r1).
                 case skip_ws r1 of
                   d # r2 \<Rightarrow>
                     if d \<noteq> CHR '':'' then None
                     else Option.bind (json_scan PValue r2) (\<lambda>(v, r3).
                       case skip_ws r3 of
                         e # r4 \<Rightarrow>
                           if e = CHR ''}'' then Some (JObject (rev ((k, v) # acc)), r4)
                           else if e = CHR '','' then json_scan (PMembers ((k, v) # acc)) r4 else None
                       | [] \<Rightarrow> None)
                 | [] \<Rightarrow> None)
           | [] \<Rightarrow> None))"

declare json_scan.simps [code]

text \<open>\<open>json.loads\<close>: a value, then only whitespace (\<open>Extra data\<close> otherwise).\<close>

definition json_loads :: "string \<Rightarrow> json option" where
  "json_loads s = Option.bind (json_scan PValue s) (\<lambda>(v, r). if skip_ws r = [] then Some v else None)"

text \<open>What may follow a value inside the payload: the end, a comma or a closing bracket.\<close>

definition ends_value :: "string \<Rightarrow> bool" where
  "ends_value r \<longleftrightarrow> r = [] \<or> hd r = CHR '','' \<or> hd r = CHR '']'' \<or> hd r = CHR ''}''"

text \<open>The parts \<open>_match_number_unicode\<close> sees in a number: sign, integer part, fraction, exponent.\<close>

definition number_parts :: "string \<Rightarrow> string \<Rightarrow> string \<Rightarrow> string \<Rightarrow> bool" where
  "number_parts sg ip fp ep \<longleftrightarrow>
     (sg = [] \<or> sg = ''-'') \<and>
     (ip = ''0'' \<or> (ip \<noteq> [] \<and> hd ip \<noteq> CHR ''0'' \<and> (\<forall>d \<in> set ip. is_digit d))) \<and>
     (fp = [] \<or> (\<exists>ds. fp = CHR ''.'' # ds \<and> ds \<noteq> [] \<and> (\<forall>d \<in> set ds. is_digit d))) \<and>
     (ep = [] \<or> (\<exists>x. ep = CHR ''e'' # exp_str x)) \<and> fp @ ep \<noteq> []"

section \<open>Numbers are matched where \<open>repr\<close> ends them\<close>

lemma ends_value_chars:
  "ends_value r \<Longrightarrow> r = [] \<or> (\<not> is_digit (hd r) \<and> hd r \<noteq> CHR ''.'' \<and> hd r \<noteq> CHR ''e'' \<and> hd r \<noteq> CHR ''E'')"
  by (auto simp: ends_value_def is_digit_def)

lemma match_int_ok:
  assumes "sg = [] \<or> sg = ''-''"
    and "ip = ''0'' \<or> (ip \<noteq> [] \<and> hd ip \<noteq> CHR ''0'' \<and> (\<forall>d \<in> set ip. is_digit d))"
    and "s = [] \<or> \<not> is_digit (hd s)"
  shows "match_int (sg @ ip @ s) = Some (sg @ ip)"
proof -
  obtain c t where ip: "ip = c # t" and c: "is_digit c" and t: "\<forall>d \<in> set t. is_digit d"
    and z: "c = CHR ''0'' \<longrightarrow> t = []"
  proof (cases "ip = ''0''")
    case True
    then show ?thesis using that [of "CHR ''0''" "[]"] by simp
  next
    case False
    then have "ip = hd ip # tl ip" "hd ip \<noteq> CHR ''0''" "\<forall>d \<in> set ip. is_digit d"
      using assms(2) by simp_all
    then show ?thesis using that [of "hd ip" "tl ip"] by (metis list.set_intros)
  qed
  have "c \<noteq> CHR ''-''" using digit_chars [OF c] by simp
  then have sg: "(if take 1 (sg @ ip @ s) = ''-'' then ''-'' else []) = sg"
    using assms(1) ip by (elim disjE) simp_all
  have d: "drop (length sg) (sg @ ip @ s) = c # t @ s" using ip by simp
  have tw: "takeWhile is_digit (t @ s) = t"
    using take_drop_prefix [OF t, of s] assms(3) by simp
  show ?thesis
    unfolding match_int_def Let_def sg d using c z tw ip by simp
qed

lemma match_frac_ok:
  assumes "ds \<noteq> []" and "\<forall>c \<in> set ds. is_digit c" and "s = [] \<or> \<not> is_digit (hd s)"
  shows "match_frac (CHR ''.'' # ds @ s) = CHR ''.'' # ds"
proof -
  obtain d t where ds: "ds = d # t" using assms(1) by (cases ds) auto
  then show ?thesis
    using assms(2) take_drop_prefix [of t is_digit s] assms(3) by (simp add: match_frac_def)
qed

lemma match_frac_none: "s = [] \<or> hd s \<noteq> CHR ''.'' \<Longrightarrow> match_frac s = []"
  by (cases s rule: remdups_adj.cases) (auto simp: match_frac_def)

lemma match_exp_none: "s = [] \<or> (hd s \<noteq> CHR ''e'' \<and> hd s \<noteq> CHR ''E'') \<Longrightarrow> match_exp s = []"
  by (cases s) (auto simp: match_exp_def)

lemma exp_str_shape:
  "\<exists>sg ds. exp_str x = sg # ds \<and> (sg = CHR ''-'' \<or> sg = CHR ''+'') \<and> ds \<noteq> [] \<and> (\<forall>c \<in> set ds. is_digit c)"
  using nat_str_props [of "nat \<bar>x\<bar>"] by (auto simp: exp_str_def Let_def)

lemma match_exp_ok:
  assumes "s = [] \<or> \<not> is_digit (hd s)"
  shows "match_exp (CHR ''e'' # exp_str x @ s) = CHR ''e'' # exp_str x"
proof -
  obtain sg ds where e: "exp_str x = sg # ds" and sg: "sg = CHR ''-'' \<or> sg = CHR ''+''"
    and ds: "ds \<noteq> []" "\<forall>c \<in> set ds. is_digit c"
    using exp_str_shape by blast
  have "takeWhile is_digit (ds @ s) = ds"
    using take_drop_prefix [OF ds(2)] assms by simp
  with sg ds(1) show ?thesis
    by (elim disjE) (simp_all add: match_exp_def Let_def e)
qed

lemma hd_nat_str: "0 < m \<Longrightarrow> hd (nat_str m) \<noteq> CHR ''0''"
proof (induction m rule: nat_str.induct)
  case (1 m)
  show ?case
  proof (cases "m < 10")
    case True
    with "1.prems" have "m \<in> {1, 2, 3, 4, 5, 6, 7, 8, 9}" by auto
    then show ?thesis using True by (auto simp: nat_str_small digit_char_def)
  next
    case False
    then have "0 < m div 10" by simp
    with "1.IH" False have "hd (nat_str (m div 10)) \<noteq> CHR ''0''" by simp
    then show ?thesis using False nat_str_props [of "m div 10"] by (simp add: nat_str_big)
  qed
qed

lemma hd_strip_zeros_nat_str: "m \<noteq> 0 \<Longrightarrow> hd (strip_zeros (nat_str m)) \<noteq> CHR ''0''"
proof -
  assume m: "m \<noteq> 0"
  obtain z where z: "nat_str m = strip_zeros (nat_str m) @ replicate z (CHR ''0'')"
    using strip_zeros_append by blast
  have "hd (nat_str m) = hd (strip_zeros (nat_str m))"
    using strip_zeros_nat_str_ne [OF m] by (subst z) simp
  with hd_nat_str [of m] m show ?thesis by simp
qed

lemma digit_not_letter: "is_digit c \<Longrightarrow> c \<noteq> CHR ''N'' \<and> c \<noteq> CHR ''I'' \<and> c \<noteq> CHR ''-''"
  by (auto simp: is_digit_def)

lemma scan_number_parts:
  assumes p: "number_parts sg ip fp ep" and r: "ends_value r"
  shows "scan_number (sg @ ip @ fp @ ep @ r) =
           (case float_of_str (sg @ ip @ fp @ ep) of Inr v \<Rightarrow> Some (JFloat v, r) | Inl _ \<Rightarrow> None)"
proof -
  have sg: "sg = [] \<or> sg = ''-''"
    and ip: "ip = ''0'' \<or> (ip \<noteq> [] \<and> hd ip \<noteq> CHR ''0'' \<and> (\<forall>d \<in> set ip. is_digit d))"
    and fp: "fp = [] \<or> (\<exists>ds. fp = CHR ''.'' # ds \<and> ds \<noteq> [] \<and> (\<forall>d \<in> set ds. is_digit d))"
    and ep: "ep = [] \<or> (\<exists>x. ep = CHR ''e'' # exp_str x)" and ne: "fp @ ep \<noteq> []"
    using p by (simp_all add: number_parts_def)
  have rc: "r = [] \<or> (\<not> is_digit (hd r) \<and> hd r \<noteq> CHR ''.'' \<and> hd r \<noteq> CHR ''e'' \<and> hd r \<noteq> CHR ''E'')"
    using ends_value_chars [OF r] .
  obtain c t where ct: "ip = c # t" and c: "is_digit c"
    using ip by (cases ip) auto
  have l: "c \<noteq> CHR ''N'' \<and> c \<noteq> CHR ''I'' \<and> c \<noteq> CHR ''-''" by (rule digit_not_letter [OF c])
  have k: "\<not> (take 3 (sg @ ip @ fp @ ep @ r) = ''NaN'') \<and> \<not> (take 8 (sg @ ip @ fp @ ep @ r) = ''Infinity'') \<and>
           \<not> (take 9 (sg @ ip @ fp @ ep @ r) = ''-Infinity'')"
    using sg ct l by (elim disjE) simp_all
  have ep_r: "match_exp (ep @ r) = ep \<and> (ep @ r = [] \<or> (\<not> is_digit (hd (ep @ r)) \<and> hd (ep @ r) \<noteq> CHR ''.''))"
  proof (cases "ep = []")
    case True
    then show ?thesis using rc match_exp_none [of r] by auto
  next
    case False
    then obtain x where "ep = CHR ''e'' # exp_str x" using ep by blast
    then show ?thesis using match_exp_ok [of r x] rc by (auto simp: is_digit_def)
  qed
  have fp_r: "match_frac (fp @ ep @ r) = fp \<and> (fp @ ep @ r = [] \<or> \<not> is_digit (hd (fp @ ep @ r)))"
  proof (cases "fp = []")
    case True
    then show ?thesis using ep_r match_frac_none [of "ep @ r"] by auto
  next
    case False
    then obtain ds where "fp = CHR ''.'' # ds" "ds \<noteq> []" "\<forall>d \<in> set ds. is_digit d" using fp by blast
    then show ?thesis using match_frac_ok [of ds "ep @ r"] ep_r by (auto simp: is_digit_def)
  qed
  have mi: "match_int (sg @ ip @ fp @ ep @ r) = Some (sg @ ip)"
    using match_int_ok [OF sg ip] fp_r by simp
  show ?thesis
    using k mi fp_r ep_r ne by (simp add: scan_number_def Let_def split: sum.split)
qed

lemma format_short_parts:
  assumes d: "\<forall>c \<in> set D. is_digit c" and ne: "D \<noteq> []" and h: "hd D \<noteq> CHR ''0''"
  shows "\<exists>ip fp ep. format_short D decpt = ip @ fp @ ep \<and> number_parts [] ip fp ep"
proof -
  obtain c t where D: "D = c # t" using ne by (cases D) auto
  have ip: "\<forall>d \<in> set D. is_digit d" "D \<noteq> []" "hd D \<noteq> CHR ''0''" using d ne h by simp_all
  consider (e) "decpt \<le> -4 \<or> 16 < decpt" | (z) "\<not> (decpt \<le> -4 \<or> 16 < decpt)" "decpt \<le> 0"
    | (w) "\<not> (decpt \<le> -4 \<or> 16 < decpt)" "0 < decpt" "int (length D) \<le> decpt"
    | (f) "0 < decpt" "decpt < int (length D)" "\<not> (decpt \<le> -4 \<or> 16 < decpt)"
    by linarith
  then show ?thesis
  proof cases
    case e
    let ?fp = "if t = [] then [] else CHR ''.'' # t"
    have "format_short D decpt = [c] @ ?fp @ CHR ''e'' # exp_str (decpt - 1)"
      using e D by (simp add: format_short_def)
    moreover have "number_parts [] [c] ?fp (CHR ''e'' # exp_str (decpt - 1))"
      using ip D by (auto simp: number_parts_def)
    ultimately show ?thesis by blast
  next
    case z
    have "format_short D decpt = ''0'' @ (CHR ''.'' # replicate (nat (- decpt)) (CHR ''0'') @ D) @ []"
      using z by (simp add: format_short_def)
    moreover have "number_parts [] ''0'' (CHR ''.'' # replicate (nat (- decpt)) (CHR ''0'') @ D) []"
      using ip by (auto simp: number_parts_def)
    ultimately show ?thesis by blast
  next
    case w
    have "format_short D decpt = (D @ replicate (nat decpt - length D) (CHR ''0'')) @ ''.0'' @ []"
      using w by (simp add: format_short_def)
    moreover have "number_parts [] (D @ replicate (nat decpt - length D) (CHR ''0'')) ''.0'' []"
      using ip by (auto simp: number_parts_def)
    ultimately show ?thesis by blast
  next
    case f
    have fs: "format_short D decpt = take (nat decpt) D @ (CHR ''.'' # drop (nat decpt) D) @ []"
      using f by (simp add: format_short_def)
    have "take (nat decpt) D \<noteq> [] \<and> hd (take (nat decpt) D) = c" using f D by (cases "nat decpt") auto
    moreover have "drop (nat decpt) D \<noteq> []" using f by simp
    moreover have "\<forall>d \<in> set (take (nat decpt) D). is_digit d" "\<forall>d \<in> set (drop (nat decpt) D). is_digit d"
      using ip(1) by (auto dest: in_set_takeD in_set_dropD)
    ultimately have "number_parts [] (take (nat decpt) D) (CHR ''.'' # drop (nat decpt) D) []"
      using ip D by (simp add: number_parts_def)
    with fs show ?thesis by blast
  qed
qed

lemma float_repr_parts:
  assumes "is_double x"
  shows "\<exists>sg ip fp ep. float_repr (Fin x) = sg @ ip @ fp @ ep \<and> number_parts sg ip fp ep"
proof (cases "x = 0")
  case True
  then have "float_repr (Fin x) = [] @ ''0'' @ ''.0'' @ [] \<and> number_parts [] ''0'' ''.0'' []"
    by (simp add: float_repr_def number_parts_def)
  then show ?thesis by blast
next
  case False
  define a where "a = \<bar>x\<bar>"
  have a: "is_double a" "0 < a" using assms False by (simp_all add: a_def is_double_def)
  obtain m e where me: "repr_digits a = (m, e)" by fastforce
  have m: "m \<noteq> 0" using repr_digits_nonzero [OF a] me by simp
  define D where "D = strip_zeros (nat_str m)"
  have D: "\<forall>c \<in> set D. is_digit c" "D \<noteq> []" "hd D \<noteq> CHR ''0''"
    using strip_zeros_nat_str [of m] strip_zeros_nat_str_ne [OF m] hd_strip_zeros_nat_str [OF m]
    by (simp_all add: D_def)
  define sg where "sg = (if x < 0 then ''-'' else [])"
  have s: "float_repr (Fin x) = sg @ format_short D (int (length (nat_str m)) + e)"
    using False me by (simp add: float_repr_def a_def D_def sg_def Let_def)
  obtain ip fp ep where f: "format_short D (int (length (nat_str m)) + e) = ip @ fp @ ep"
    and p: "number_parts [] ip fp ep"
    using format_short_parts [OF D] by blast
  have "number_parts sg ip fp ep" using p by (simp add: number_parts_def sg_def)
  with s f show ?thesis by auto
qed

lemma scan_number_json_float:
  assumes "pyfloat_ok v" and r: "ends_value r"
  shows "scan_number (json_float v @ r) = Some (JFloat v, r)"
proof (cases v)
  case (Fin x)
  then obtain sg ip fp ep where f: "float_repr (Fin x) = sg @ ip @ fp @ ep" and p: "number_parts sg ip fp ep"
    using assms(1) float_repr_parts [of x] by auto
  have "float_of_str (sg @ ip @ fp @ ep) = Inr (Fin x)"
    using float_repr_roundtrip [of "Fin x"] assms(1) Fin f by simp
  then show ?thesis
    using scan_number_parts [OF p r] f Fin by (simp add: json_float_def)
next
  case (Inf neg)
  then show ?thesis by (cases neg) (simp_all add: json_float_def scan_number_def)
qed (simp add: json_float_def scan_number_def)

section \<open>The scanner reads back what \<open>json.dumps\<close> writes\<close>

lemma skip_ws_nonws [simp]: "\<not> is_ws c \<Longrightarrow> skip_ws (c # s) = c # s"
  by (simp add: skip_ws_def)

lemma skip_ws_ws: "is_ws c \<Longrightarrow> skip_ws (c # s) = skip_ws s"
  by (simp add: skip_ws_def)

lemma json_scan_value:
  "json_scan PValue s =
     (case skip_ws s of
        [] \<Rightarrow> None
      | c # r \<Rightarrow>
          if c = dquote then Option.bind (scan_string r) (\<lambda>(t, r'). Some (JString t, r'))
          else if c = CHR ''['' then
            (case skip_ws r of
               d # r' \<Rightarrow> if d = CHR '']'' then Some (JArray [], r') else json_scan (PElems []) r
             | [] \<Rightarrow> None)
          else if c = CHR ''{'' then
            (case skip_ws r of
               d # r' \<Rightarrow> if d = CHR ''}'' then Some (JObject [], r') else json_scan (PMembers []) r
             | [] \<Rightarrow> None)
          else scan_number (c # r))"
  by (subst json_scan.simps) simp

lemma json_scan_elems:
  "json_scan (PElems acc) s =
     Option.bind (json_scan PValue s) (\<lambda>(v, r).
       case skip_ws r of
         d # r' \<Rightarrow>
           if d = CHR '']'' then Some (JArray (rev (v # acc)), r')
           else if d = CHR '','' then json_scan (PElems (v # acc)) r' else None
       | [] \<Rightarrow> None)"
  by (subst json_scan.simps) simp

lemma json_scan_members:
  "json_scan (PMembers acc) s =
     (case skip_ws s of
        c # r \<Rightarrow>
          if c \<noteq> dquote then None
          else Option.bind (scan_string r) (\<lambda>(k, r1).
            case skip_ws r1 of
              d # r2 \<Rightarrow>
                if d \<noteq> CHR '':'' then None
                else Option.bind (json_scan PValue r2) (\<lambda>(v, r3).
                  case skip_ws r3 of
                    e # r4 \<Rightarrow>
                      if e = CHR ''}'' then Some (JObject (rev ((k, v) # acc)), r4)
                      else if e = CHR '','' then json_scan (PMembers ((k, v) # acc)) r4 else None
                  | [] \<Rightarrow> None)
            | [] \<Rightarrow> None)
      | [] \<Rightarrow> None)"
  by (subst json_scan.simps) simp

lemma json_scan_ws:
  assumes "is_ws c"
  shows "json_scan PValue (c # s) = json_scan PValue s \<and>
         json_scan (PElems acc) (c # s) = json_scan (PElems acc) s \<and>
         json_scan (PMembers kacc) (c # s) = json_scan (PMembers kacc) s"
  using assms by (simp add: json_scan_value json_scan_elems json_scan_members skip_ws_ws
      del: skip_ws_nonws)

lemma sep_join_Cons: "\<exists>t. sep_join sep (w # ws) = w @ t"
  by (cases ws) auto

lemma json_float_start:
  assumes "pyfloat_ok v"
  shows "\<exists>c t. json_float v = c # t \<and> (is_digit c \<or> c = CHR ''-'' \<or> c = CHR ''N'' \<or> c = CHR ''I'')"
proof (cases v)
  case (Fin x)
  then obtain sg ip fp ep where f: "float_repr (Fin x) = sg @ ip @ fp @ ep" and p: "number_parts sg ip fp ep"
    using assms float_repr_parts [of x] by auto
  obtain c t where "ip = c # t" "is_digit c" using p by (cases ip) (auto simp: number_parts_def)
  then show ?thesis
    using f p Fin by (auto simp: json_float_def number_parts_def)
next
  case (Inf neg)
  then show ?thesis by (cases neg) (simp_all add: json_float_def)
qed (simp add: json_float_def)

lemma float_start_chars:
  "is_digit c \<or> c = CHR ''-'' \<or> c = CHR ''N'' \<or> c = CHR ''I'' \<Longrightarrow>
     \<not> is_ws c \<and> c \<noteq> CHR '']'' \<and> c \<noteq> CHR ''}'' \<and> c \<noteq> CHR ''['' \<and> c \<noteq> CHR ''{'' \<and> c \<noteq> dquote"
  by (auto simp: is_digit_def is_ws_def dquote_def)

lemma json_dumps_start:
  assumes "json_ok j"
  shows "\<exists>c t. json_dumps j = c # t \<and> \<not> is_ws c \<and> c \<noteq> CHR '']'' \<and> c \<noteq> CHR ''}''"
proof (cases j)
  case (JFloat v)
  then show ?thesis
    using json_float_start [of v] assms float_start_chars by fastforce
qed (simp_all add: json_string_def dquote_def is_ws_def)

lemma scan_elems:
  assumes "\<forall>x \<in> set xs. json_ok x \<and> (\<forall>r. ends_value r \<longrightarrow> json_scan PValue (json_dumps x @ r) = Some (x, r))"
    and "xs \<noteq> []"
  shows "json_scan (PElems acc) (sep_join '', '' (map json_dumps xs) @ CHR '']'' # r) = Some (JArray (rev acc @ xs), r)"
  using assms
proof (induction xs arbitrary: acc rule: induct_list012)
  case (2 x)
  then have "json_scan PValue (json_dumps x @ CHR '']'' # r) = Some (x, CHR '']'' # r)"
    by (simp add: ends_value_def)
  then show ?case by (simp add: json_scan_elems is_ws_def)
next
  case (3 x y zs)
  then have v: "json_scan PValue (json_dumps x @ CHR '','' # CHR '' '' # sep_join '', '' (map json_dumps (y # zs)) @ CHR '']'' # r) =
                Some (x, CHR '','' # CHR '' '' # sep_join '', '' (map json_dumps (y # zs)) @ CHR '']'' # r)"
    by (simp add: ends_value_def)
  have "json_scan (PElems (x # acc)) (sep_join '', '' (map json_dumps (y # zs)) @ CHR '']'' # r) =
        Some (JArray (rev (x # acc) @ y # zs), r)"
    using "3.IH"(2) [of "x # acc"] "3.prems"(1) by simp
  then show ?case
    using v json_scan_ws [of "CHR '' ''"] by (simp add: json_scan_elems is_ws_def)
qed simp

lemma scan_members:
  assumes "\<forall>kv \<in> set kvs. \<forall>r. ends_value r \<longrightarrow> json_scan PValue (json_dumps (snd kv) @ r) = Some (snd kv, r)"
    and "kvs \<noteq> []"
  shows "json_scan (PMembers acc)
           (sep_join '', '' (map (\<lambda>kv. json_string (fst kv) @ '': '' @ json_dumps (snd kv)) kvs) @ CHR ''}'' # r) =
         Some (JObject (rev acc @ kvs), r)"
  using assms
proof (induction kvs arbitrary: acc rule: induct_list012)
  case (2 kv)
  obtain k v where kv: "kv = (k, v)" by fastforce
  have "json_scan PValue (CHR '' '' # json_dumps v @ CHR ''}'' # r) = Some (v, CHR ''}'' # r)"
    using "2.prems"(1) kv json_scan_ws [of "CHR '' ''"] by (simp add: ends_value_def is_ws_def)
  then show ?case
    using kv scan_string_json [of k]
    by (simp add: json_scan_members json_string_def dquote_def is_ws_def)
next
  case (3 kv kv' zs)
  obtain k v where kv: "kv = (k, v)" by fastforce
  let ?rest = "sep_join '', '' (map (\<lambda>kv. json_string (fst kv) @ '': '' @ json_dumps (snd kv)) (kv' # zs)) @ CHR ''}'' # r"
  have "json_scan PValue (CHR '' '' # json_dumps v @ CHR '','' # CHR '' '' # ?rest) = Some (v, CHR '','' # CHR '' '' # ?rest)"
    using "3.prems"(1) kv json_scan_ws [of "CHR '' ''"] by (simp add: ends_value_def is_ws_def)
  moreover have "json_scan (PMembers ((k, v) # acc)) ?rest = Some (JObject (rev ((k, v) # acc) @ kv' # zs), r)"
    using "3.IH"(2) [of "(k, v) # acc"] "3.prems"(1) by simp
  ultimately show ?case
    using kv scan_string_json [of k] json_scan_ws [of "CHR '' ''"]
    by (simp add: json_scan_members json_string_def dquote_def is_ws_def)
qed simp

lemma json_scan_dumps:
  "json_ok j \<Longrightarrow> ends_value r \<Longrightarrow> json_scan PValue (json_dumps j @ r) = Some (j, r)"
proof (induction j arbitrary: r)
  case (JString s)
  then show ?case using scan_string_json [of s]
    by (simp add: json_scan_value json_string_def dquote_def is_ws_def)
next
  case (JFloat v)
  obtain c t where "json_float v = c # t" "is_digit c \<or> c = CHR ''-'' \<or> c = CHR ''N'' \<or> c = CHR ''I''"
    using json_float_start [of v] JFloat.prems(1) by auto
  then show ?case
    using scan_number_json_float [of v r] JFloat.prems float_start_chars [of c] by (simp add: json_scan_value)
next
  case (JArray xs)
  show ?case
  proof (cases xs)
    case Nil
    then show ?thesis by (simp add: json_scan_value dquote_def is_ws_def)
  next
    case (Cons x xs')
    obtain c t where ct: "json_dumps x = c # t" "\<not> is_ws c" "c \<noteq> CHR '']''"
      using json_dumps_start [of x] JArray.prems(1) Cons by auto
    obtain u where u: "sep_join '', '' (map json_dumps xs) = json_dumps x @ u"
      using sep_join_Cons [of "'', ''" "json_dumps x" "map json_dumps xs'"] Cons by auto
    have "json_scan (PElems []) (sep_join '', '' (map json_dumps xs) @ CHR '']'' # r) = Some (JArray xs, r)"
      using scan_elems [of xs "[]" r] JArray Cons by simp
    then show ?thesis
      using u ct by (simp add: json_scan_value dquote_def is_ws_def)
  qed
next
  case (JObject kvs)
  show ?case
  proof (cases kvs)
    case Nil
    then show ?thesis by (simp add: json_scan_value dquote_def is_ws_def)
  next
    case (Cons kv kvs')
    let ?w = "\<lambda>kv. json_string (fst kv) @ '': '' @ json_dumps (snd kv)"
    obtain u where u: "sep_join '', '' (map ?w kvs) = ?w kv @ u"
      using sep_join_Cons [of "'', ''" "?w kv" "map ?w kvs'"] Cons by auto
    have "\<forall>kv \<in> set kvs. \<forall>r. ends_value r \<longrightarrow> json_scan PValue (json_dumps (snd kv) @ r) = Some (snd kv, r)"
      using JObject by (metis json_ok.simps(4) prod.exhaust_sel snds.intros)
    then have "json_scan (PMembers []) (sep_join '', '' (map ?w kvs) @ CHR ''}'' # r) = Some (JObject kvs, r)"
      using scan_members [of kvs "[]" r] Cons by simp
    then show ?thesis
      using u by (simp add: json_scan_value json_string_def dquote_def is_ws_def)
  qed
qed

section \<open>The payload decodes to the metrics\<close>

text \<open>
  Decoding the payload gives back exactly the list of metric dictionaries, in order,
  every string with all its characters and every value as the same binary64 value.
\<close>

lemma metrics_payload_loads:
  assumes "\<forall>m \<in> set ms. pyfloat_ok (metric_value m)"
  shows "json_loads (metrics_payload ms) = Some (JArray (map metric_json ms))"
proof -
  have "json_ok (JArray (map metric_json ms))"
    using assms by (simp add: metric_json_def)
  then have "json_scan PValue (json_dumps (JArray (map metric_json ms)) @ []) = Some (JArray (map metric_json ms), [])"
    by (rule json_scan_dumps) (simp add: ends_value_def)
  then show ?thesis
    by (simp add: json_loads_def metrics_payload_def skip_ws_def)
qed

section \<open>Examples\<close>

lemma metrics_payload_loads_example:
  "json_loads (metrics_payload [\<lparr>metric_id = ''1'', metric_descriptor = ''D'', metric_type = ''F'',
     metric_value = Fin (1/2), metric_description = ''say \"hi\"'' @ [CHR 0x0A], metric_unit = ''Hz'', metric_unit_zabbix = ''Hz''\<rparr>]) =
   Some (JArray [metric_json \<lparr>metric_id = ''1'', metric_descriptor = ''D'', metric_type = ''F'',
     metric_value = Fin (1/2), metric_description = ''say \"hi\"'' @ [CHR 0x0A], metric_unit = ''Hz'', metric_unit_zabbix = ''Hz''\<rparr>])"
proof -
  have "(1/2::rat) = of_int 1 * 2 powi (-1)" by (simp add: power_int_minus)
  then have "pyfloat_ok (Fin (1/2))"
    using is_double_multiple [of 1 "-1" "1/2"] by simp
  then show ?thesis
    using metrics_payload_loads [of "[\<lparr>metric_id = ''1'', metric_descriptor = ''D'', metric_type = ''F'',
     metric_value = Fin (1/2), metric_description = ''say \"hi\"'' @ [CHR 0x0A], metric_unit = ''Hz'', metric_unit_zabbix = ''Hz''\<rparr>]"] by simp
qed

end
