(* ===== verification/Spec2Isabelle.thy ===== *)
theory Spec2Isabelle
  imports Startup Json_Decode
begin

text \<open>
  Verification development for the Benning Solar data collector, \<open>src/app.py\<close>: a
  worker polls a photovoltaic inverter over HTTP, parses its semicolon-separated table
  of readings, normalises units and publishes the readings as one JSON array over MQTT,
  at a fixed interval with skip-ahead scheduling.

  \<^bold>\<open>Parts and theories.\<close> Each theory models one part of the program, in the order
  the code composes them; a theory imports the parts it calls.
  \<^item> \<open>Prelude\<close>: the exceptions (\<open>py_exc\<close>, with the module's \<open>class Error\<close> as
    \<open>AppError\<close>), results \<open>py_exc + 'a\<close> with \<open>rbind\<close> for Python's implicit
    propagation, list indexing that raises \<open>IndexError\<close> (\<open>py_index\<close>), and a loop
    that stops at the first exception (\<open>map_result\<close>).
  \<^item> \<open>Py_Str\<close>: the \<open>str\<close> methods the parser calls, \<open>split(';')\<close>
    (\<open>split_on\<close>, line 176), \<open>splitlines()\<close> (\<open>splitlines\<close>, line 174) and
    \<open>strip('"')\<close> (\<open>strip_chars\<close>, line 208), with the lemmas on joined
    fields and terminated lines that the parser's theorems rest on.
  \<^item> \<open>Py_Float\<close>: \<open>float(s)\<close> (\<open>float_of_str\<close>, lines 182 and 184) as CPython parses
    it, the exact rounding to binary64 (\<open>round64\<close>) and IEEE multiplication
    (\<open>fmul\<close>, lines 182, 190, 200); every float the model computes is a binary64 value.
  \<^item> \<open>Py_Repr\<close>: \<open>repr\<close> of a float as \<open>json.dumps\<close> writes it (line 215):
    the shortest digits that read back (\<open>repr_digits\<close>, dtoa mode 0, searched from
    one digit up to the exact decimal of the value, so no fuel bound is needed) and
    \<open>format_float_short\<close> (\<open>format_short\<close>).
  \<^item> \<open>Unit_Normalizer\<close>: lines 186 to 206, five independent \<open>if\<close>s on the locals
    \<open>value\<close>, \<open>unit\<close>, \<open>unit_zabbix\<close> (record \<open>conv\<close>), one function each, composed
    in \<open>normalize_units\<close>.
  \<^item> \<open>Record_Parser\<close>: lines 172 to 211, the loop over the lines of the body:
    \<open>process_line\<close> (the loop body, field accesses in code order), \<open>parse_lines\<close>
    (the loop with \<open>allmetrics\<close> and \<open>linecnt\<close>), \<open>parse_body\<close>.
  \<^item> \<open>Json_Payload\<close>: \<open>json.dumps(allmetrics)\<close> (line 215): the metric
    dictionary of line 208 as a JSON object (\<open>metric_json\<close>), the \<open>ensure_ascii\<close>
    escapes, the separators, and \<open>py_scanstring\<close>, the scanner that reads an
    encoded string back.
  \<^item> \<open>Json_Decode\<close>: what a subscriber runs on the payload, \<open>json.loads\<close> as
    CPython's C scanner reads a text (\<open>json_scan\<close>, one \<open>partial_function (option)\<close>
    over three modes: a value, the elements of an array, the members of an object;
    \<open>scan_number\<close> for \<open>_match_number_unicode\<close>). It is not code of the repository;
    it states what the published text means.
  \<^item> \<open>Worker_Config\<close>: the configuration the worker reads (\<open>config\<close>) and its
    observable effects (\<open>event\<close>): log records, the HTTP request, MQTT connects and
    publications (the topic and the payload text), sleeps.
  \<^item> \<open>Device_Fetcher\<close>: lines 155 to 165 and 220 to 221, the request and its four
    outcomes (\<open>fetch\<close>).
  \<^item> \<open>Mqtt_Publisher\<close>: \<open>mqtt_connect\<close> (lines 124 to 139) and the publish-or-reconnect
    step (\<open>publish_metrics\<close>, lines 213 to 218) on the state \<open>mqtt_state\<close>
    (the attribute \<open>mqtt_connected\<close> and the number of clients made).
  \<^item> \<open>Worker\<close>: \<open>do_repeat\<close> (lines 154 to 221) composed from the three above,
    returning its events and its new MQTT state or the exception that leaves it.
  \<^item> \<open>Scheduler\<close>: \<open>every\<close> (lines 141 to 152) and the constructor (lines 120 to
    122): one pass of \<open>while True\<close> (\<open>every_iteration\<close>), the floor-division update
    of \<open>next_time\<close> (\<open>next_fire\<close>), runs over finite lists of passes
    (\<open>run_every\<close>) and the reachable states (\<open>reachable\<close>, an inductive relation).
  \<^item> \<open>Startup\<close>: the process around the worker (lines 43 to 113 and 223 to 236):
    \<open>parse_arguments\<close>, \<open>find_default_config_path\<close> with \<open>posixpath\<close>'s
    \<open>dirname\<close>, \<open>basename\<close> and \<open>join\<close>, \<open>set_up_logging\<close>'s choice of
    handler, \<open>read_config\<close> with exit status 254, the \<open>__main__\<close> block
    (\<open>startup\<close>) and the whole process (\<open>run_process\<close>: start-up, then the
    constructor and the loop, with exit status 1 for an exception that leaves it).

  \<^bold>\<open>What is shown.\<close> The unit conversion equals the spec's else-if normaliser and is
  idempotent (\<open>Unit_Normalizer\<close>). A table of well-formed rows parses to the spec's
  metrics whatever its line endings; a bad or empty line makes the whole batch raise;
  the description loses its quotes; a separator inside a quoted description shifts the
  later fields (\<open>Record_Parser\<close>). One call of the task makes one request and at most
  one publication or connection attempt (\<open>Worker\<close>). Every pass sleeps, makes its
  one request and touches the bus only after the body is parsed; the scheduler survives
  every task exception, skips missed ticks to the next grid point, keeps
  \<open>next_time\<close> on the grid in every reachable state, polls once per pass and, over a
  run of \<open>n\<close> passes whose sleeps behave as \<open>time.sleep\<close> does, advances
  \<open>next_time\<close> by at least \<open>n\<close> intervals (no catch-up burst); it crashes for a zero
  interval, polls in a busy loop for a negative one, and never reconnects once
  connected (\<open>Scheduler\<close>). The process always logs to the console, where every
  record of the module is shown with or without \<open>-d\<close>; it exits with 254 without a
  configuration file and with 1 on a YAML error or a zero interval, and otherwise never
  exits; the default configuration file lies in the script's directory
  (\<open>Startup\<close>). The payload is printable ASCII, and a device value that reads as NaN
  reaches it as the bare token \<open>NaN\<close> (\<open>Json_Payload\<close>). This theory composes the
  parts: every payload the whole process publishes comes from a parsed 200 response of
  a pass and decodes with \<open>json.loads\<close> to exactly the parsed metrics, every string and
  every binary64 value unchanged (the trace lemmas \<open>do_repeat_publish\<close>,
  \<open>every_iteration_publish\<close>, \<open>run_every_publish\<close>, \<open>run_process_publish\<close> carry a
  publication back through the layers; \<open>float_repr_roundtrip\<close> of \<open>Py_Repr\<close> and
  \<open>json_scan_dumps\<close> of \<open>Json_Decode\<close> give the decoding). Each claim is a theorem
  after a text naming its id; each theorem with a hypothesis has a witness at a concrete
  input.

  \<^bold>\<open>Environment and abstractions.\<close> The outside world is an input: the outcome of
  \<open>requests.get\<close> (\<open>http_outcome\<close>, the body already decoded), whether
  \<open>client.connect\<close> raises, and the two clock readings of a pass (\<open>tick_env\<close>).
  Times are exact rationals, not floats. The while loop never ends, so it is modelled
  by one pass, by finite runs and by reachability; no fuel is needed. The decoder may not return on an arbitrary text
  as far as its definition shows, so it is a \<open>partial_function (option)\<close>; that it
  returns on the payload is proved as such (the result is \<open>Some\<close>). A HOL character
  stands for a code point below 256: \<open>splitlines\<close> breaks at all boundaries below
  U+0100, U+2028 and U+2029 are not representable. The sign of a float zero is not
  kept. Log records carry what they report, not their text.

  \<^bold>\<open>Not modelled.\<close> The inside of argparse, the file system and YAML: what they
  return is an input, and a loaded configuration is assumed to hold every key the
  worker reads, with its type (a missing key would raise \<open>KeyError\<close> in the
  constructor). The handler, formatter and filter objects of \<open>set_up_logging\<close>:
  its choice of handler and its level filter are modelled, the text of a record is not,
  since it embeds \<open>str(error)\<close> of exceptions raised by the environment (the model's
  events record what is reported, not how). The \<open>on_publish\<close> callback, which only
  logs; the paho client beyond \<open>connect\<close> and \<open>publish\<close> (no network loop is
  started by the code either). Timestamps are exact rationals, not binary64: the float
  rounding of \<open>time.time()\<close> arithmetic on line 152 is not modelled.

  \<^bold>\<open>Termination.\<close> The program has no loop whose termination is in question: the
  loop over the lines of a body is structural recursion (\<open>parse_lines\<close>), and
  \<open>while True\<close> is meant never to end, which is shown as liveness (the process is still
  running after any number of passes). The one definition that need not return is the
  subscriber's decoder, a \<open>partial_function (option)\<close>, and that it returns on every
  payload is proved.
\<close>

section \<open>What a subscriber receives\<close>

text \<open>
  C31: end to end, from the device to the subscriber: every payload the process ever
  publishes was built in a pass from a 200 response of the configured device whose
  body parsed, goes to the configured topic, and decodes with \<open>json.loads\<close> to
  exactly the metric dictionaries parsed from that body, every string and every
  binary64 value unchanged.
\<close>

theorem published_payload_decodes:
  assumes "WorkerEvent (MqttPublish t p) \<in> set (fst (run_process env ok t0 ticks))"
  shows "\<exists>cfg e body ms n. files env (config_path env) = Loaded cfg \<and> e \<in> set ticks \<and>
           http e = HttpResponse 200 body \<and> parse_body body = Inr (ms, n) \<and>
           t = mqtt_topic cfg \<and> json_loads p = Some (JArray (map metric_json ms))"
proof -
  obtain cfg e body ms n where c: "files env (config_path env) = Loaded cfg" and e: "e \<in> set ticks"
    and h: "http e = HttpResponse 200 body" and pb: "parse_body body = Inr (ms, n)"
    and tp: "t = mqtt_topic cfg" "p = metrics_payload ms"
    using run_process_publish [OF assms] by blast
  have "map_result process_line (splitlines body) = Inr ms"
    using pb by (auto simp: parse_body_eq rbind_eq_Inr_iff)
  then have "\<forall>m \<in> set ms. pyfloat_ok (metric_value m)"
    by (rule map_result_Inr_set) (rule process_line_ok)
  then have "json_loads p = Some (JArray (map metric_json ms))"
    unfolding tp(2) by (rule metrics_payload_loads)
  with c e h pb tp(1) show ?thesis by blast
qed

theorem published_payload_decodes_witness:
  "\<exists>cfg e body ms n. files example_env (config_path example_env) = Loaded cfg \<and>
     e \<in> set [example_tick (HttpResponse 200 (''1;D;F;2;x;1.000000;Hz'' @ [LF]))] \<and>
     http e = HttpResponse 200 body \<and> parse_body body = Inr (ms, n) \<and> ''benning'' = mqtt_topic cfg \<and>
     json_loads (metrics_payload [\<lparr>metric_id = ''1'', metric_descriptor = ''D'', metric_type = ''F'',
         metric_value = Fin 2, metric_description = ''x'', metric_unit = ''Hz'', metric_unit_zabbix = ''Hz''\<rparr>]) = Some (JArray (map metric_json ms))"
proof -
  have "WorkerEvent (MqttPublish ''benning'' (metrics_payload [\<lparr>metric_id = ''1'', metric_descriptor = ''D'', metric_type = ''F'',
         metric_value = Fin 2, metric_description = ''x'', metric_unit = ''Hz'', metric_unit_zabbix = ''Hz''\<rparr>])) \<in>
          set (fst (run_process example_env True 0 [example_tick (HttpResponse 200 (''1;D;F;2;x;1.000000;Hz'' @ [LF]))]))"
    using do_repeat_ok_200 [OF parse_body_example]
    by (simp add: run_process_def startup_eq read_config_def example_env_path worker_init_def
        mqtt_connect_def every_iteration_eq publish_metrics_def task_outcome_def next_fire_def)
  then show ?thesis by (rule published_payload_decodes)
qed

end
